theory Spec2Isabelle
  imports Complex_Main "HOL-Library.AList"
begin

section \<open>Text helpers of the Python runtime\<close>

text \<open>
  Strings are modelled over the ASCII range: \<open>str.strip\<close> removes the ASCII
  characters for which \<open>str.isspace\<close> holds (codes 9 to 13 and 28 to 32),
  \<open>str.lower\<close> maps \<open>A..Z\<close> to \<open>a..z\<close>, and \<open>\d\<close> is \<open>0..9\<close>.
\<close>

definition is_space :: "char \<Rightarrow> bool" where
  "is_space c = (c \<in> set [CHR 0x09, CHR 0x0A, CHR 0x0B, CHR 0x0C, CHR 0x0D,
                            CHR 0x1C, CHR 0x1D, CHR 0x1E, CHR 0x1F, CHR 0x20])"

definition strip :: "string \<Rightarrow> string" where
  "strip s = rev (dropWhile is_space (rev (dropWhile is_space s)))"

definition lower_char :: "char \<Rightarrow> char" where
  "lower_char c =
     (case map_of (zip ''ABCDEFGHIJKLMNOPQRSTUVWXYZ'' ''abcdefghijklmnopqrstuvwxyz'') c of
        Some d \<Rightarrow> d
      | None \<Rightarrow> c)"

definition lower :: "string \<Rightarrow> string" where
  "lower s = map lower_char s"

definition remove_char :: "char \<Rightarrow> string \<Rightarrow> string" where
  \<comment> \<open>\<open>s.replace(c, "")\<close> for a one-character \<open>c\<close>\<close>
  "remove_char c s = filter (\<lambda>x. x \<noteq> c) s"

definition is_digit :: "char \<Rightarrow> bool" where
  "is_digit c = (c \<in> set ''0123456789'')"

definition digit_val :: "char \<Rightarrow> nat" where
  \<comment> \<open>the value of a digit: its place in \<open>0123456789\<close>\<close>
  "digit_val c = length (takeWhile (\<lambda>d. d \<noteq> c) ''0123456789'')"

definition digits_val :: "string \<Rightarrow> nat" where
  "digits_val ds = foldl (\<lambda>acc c. 10 * acc + digit_val c) 0 ds"

fun ndigits :: "nat \<Rightarrow> nat" where
  "ndigits n = (if n < 10 then 1 else Suc (ndigits (n div 10)))"

declare ndigits.simps [simp del]

fun digits_of :: "nat \<Rightarrow> string" where
  "digits_of n = (if n < 10 then [''0123456789'' ! n]
                   else digits_of (n div 10) @ [''0123456789'' ! (n mod 10)])"

declare digits_of.simps [simp del]

definition str_int :: "int \<Rightarrow> string" where
  \<comment> \<open>\<open>str(n)\<close> of a Python int\<close>
  "str_int i = (if i < 0 then CHR ''-'' # digits_of (nat (- i)) else digits_of (nat i))"


section \<open>Decimal arithmetic used by the price parser\<close>

text \<open>
  \<open>int(Decimal(cleaned) * 100)\<close> under the default context of the \<open>decimal\<close>
  module: precision 28, rounding half-even, \<open>Emax = 999999\<close>, \<open>Emin = -999999\<close>,
  with the Overflow and InvalidOperation traps enabled. The constructor is exact; the
  product is rounded to the context; \<open>int\<close> truncates towards zero. The strings
  for infinities and NaNs are accepted by the constructor, but \<open>int\<close> (or the
  product, for a signalling NaN) raises on them, so they end in the same
  \<open>except Exception\<close> branch as a string that is no number: all of them are
  \<open>None\<close> here.
\<close>

record decimal =
  negative :: bool
  coeff :: nat
  expo :: int

definition parse_exponent :: "string \<Rightarrow> int option" where
  \<comment> \<open>the rest after the number: empty, or \<open>E[-+]?\d+\<close> (case-insensitive)\<close>
  "parse_exponent s =
     (case s of
        [] \<Rightarrow> Some 0
      | e # r \<Rightarrow>
          if e \<noteq> CHR ''e'' \<and> e \<noteq> CHR ''E'' then None
          else (let (neg, ds) = (case r of
                                   [] \<Rightarrow> (False, [])
                                 | c # r' \<Rightarrow> if c = CHR ''-'' then (True, r')
                                              else if c = CHR ''+'' then (False, r')
                                              else (False, r))
                in if ds = [] \<or> \<not> list_all is_digit ds then None
                   else Some (if neg then - int (digits_val ds) else int (digits_val ds))))"

definition Decimal :: "string \<Rightarrow> decimal option" where
  \<comment> \<open>the finite numbers accepted by \<open>Decimal(str)\<close>; underscores are dropped first\<close>
  "Decimal s0 =
     (let s = remove_char CHR ''_'' s0;
          (neg, body) = (case s of
                           [] \<Rightarrow> (False, [])
                         | c # r \<Rightarrow> if c = CHR ''-'' then (True, r)
                                    else if c = CHR ''+'' then (False, r)
                                    else (False, s));
          ip = takeWhile is_digit body;
          r1 = dropWhile is_digit body;
          (fp, r2) = (case r1 of
                        [] \<Rightarrow> ([], [])
                      | c # r \<Rightarrow> if c = CHR ''.'' then (takeWhile is_digit r, dropWhile is_digit r)
                                 else ([], r1))
      in if ip = [] \<and> fp = [] then None
         else (case parse_exponent r2 of
                 None \<Rightarrow> None
               | Some e \<Rightarrow> Some \<lparr>negative = neg, coeff = digits_val (ip @ fp),
                                  expo = e - int (length fp)\<rparr>))"

definition prec :: nat where "prec = 28"
definition Emax :: int where "Emax = 999999"
definition Emin :: int where "Emin = - 999999"
definition Etiny :: int where "Etiny = Emin - int prec + 1"
definition Etop :: int where "Etop = Emax - int prec + 1"

definition round_half_even :: "nat \<Rightarrow> nat \<Rightarrow> nat" where
  \<comment> \<open>the coefficient with its last \<open>k\<close> digits rounded away\<close>
  "round_half_even c k =
     (if k = 0 then c
      else (let q = c div 10 ^ k; r = c mod 10 ^ k; h = 5 * 10 ^ (k - 1)
            in if r > h \<or> (r = h \<and> odd q) then q + 1 else q))"

definition fix_decimal :: "decimal \<Rightarrow> decimal option" where
  \<comment> \<open>rounding of a result to the context; \<open>None\<close> is the trapped Overflow\<close>
  "fix_decimal d =
     (if coeff d = 0
      then Some (d\<lparr>expo := max Etiny (min (expo d) Emax)\<rparr>)
      else (let em0 = int (ndigits (coeff d)) + expo d - int prec
            in if em0 > Etop then None
               else (let em = max em0 Etiny
                     in if expo d < em
                        then (let c = round_half_even (coeff d) (nat (em - expo d));
                                  (c', em') = (if ndigits c > prec then (c div 10, em + 1) else (c, em))
                              in if em' > Etop then None
                                 else Some (d\<lparr>coeff := c', expo := em'\<rparr>))
                        else Some d)))"

definition times_100 :: "decimal \<Rightarrow> decimal option" where
  "times_100 d = fix_decimal (d\<lparr>coeff := coeff d * 100\<rparr>)"

definition int_of_decimal :: "decimal \<Rightarrow> int" where
  \<comment> \<open>\<open>int(d)\<close>: truncation towards zero\<close>
  "int_of_decimal d =
     (let m = (if expo d \<ge> 0 then int (coeff d) * 10 ^ nat (expo d)
               else int (coeff d div 10 ^ nat (- expo d)))
      in if negative d then - m else m)"


section \<open>Row Normalizer\<close>

definition parse_price_to_cents :: "string option \<Rightarrow> int option" where
  "parse_price_to_cents v =
     (case v of
        None \<Rightarrow> None
      | Some s \<Rightarrow>
          if s = [] then None
          else (let cleaned = strip (remove_char CHR '','' (remove_char CHR ''$'' s))
                in if cleaned = [] then None
                   else (case Decimal cleaned of
                           None \<Rightarrow> None
                         | Some d \<Rightarrow>
                             (case times_100 d of
                                None \<Rightarrow> None
                              | Some p \<Rightarrow> (let cents = int_of_decimal p
                                           in if cents \<ge> 0 then Some cents else None)))))"

text \<open>
  A raw row is the dictionary built by \<open>csv.DictReader\<close>, in insertion order; a
  value is \<open>None\<close> for a column the row is too short for.
\<close>

type_synonym raw_row = "(string \<times> string option) list"

record product =
  sku :: string
  name :: "string option"
  description :: "string option"
  price_cents :: "int option"
  active :: bool

definition normalized_dict :: "raw_row \<Rightarrow> (string \<times> string option) list" where
  \<comment> \<open>the dict comprehension: a later item overwrites the value of an equal key\<close>
  "normalized_dict row = fold (\<lambda>(k, v). AList.update (lower (strip k)) v) row []"

definition dict_get :: "(string \<times> string option) list \<Rightarrow> string \<Rightarrow> string option" where
  \<comment> \<open>\<open>d.get(k)\<close>: \<open>None\<close> for a missing key and for a stored \<open>None\<close>\<close>
  "dict_get d k = (case map_of d k of None \<Rightarrow> None | Some v \<Rightarrow> v)"

definition or_empty :: "string option \<Rightarrow> string" where
  "or_empty v = (case v of None \<Rightarrow> [] | Some s \<Rightarrow> s)"

definition or_none :: "string \<Rightarrow> string option" where
  "or_none s = (if s = [] then None else Some s)"

definition py_or :: "int option \<Rightarrow> int option \<Rightarrow> int option" where
  \<comment> \<open>Python's \<open>a or b\<close> on optional ints: \<open>None\<close> and \<open>0\<close> are falsy\<close>
  "py_or a b = (case a of None \<Rightarrow> b | Some n \<Rightarrow> if n = 0 then b else Some n)"

definition normalize_row :: "raw_row \<Rightarrow> product option" where
  "normalize_row row =
     (let normalized = normalized_dict row;
          sku_v = strip (or_empty (dict_get normalized ''sku''))
      in if sku_v = [] then None
         else (let active_value = lower (strip (or_empty (dict_get normalized ''active'')));
                   act = (active_value \<notin> set [''false'', ''0'', ''no'', ''inactive'']);
                   pc = py_or (parse_price_to_cents (dict_get normalized ''price_cents''))
                              (parse_price_to_cents (dict_get normalized ''price''))
               in Some \<lparr>sku = sku_v,
                         name = or_none (strip (or_empty (dict_get normalized ''name''))),
                         description = or_none (strip (or_empty (dict_get normalized ''description''))),
                         price_cents = pc,
                         active = act\<rparr>))"


section \<open>Batch Deduplicator\<close>

definition dedupe_dict :: "product list \<Rightarrow> (string \<times> product) list" where
  \<comment> \<open>the dictionary \<open>deduped\<close> after the loop\<close>
  "dedupe_dict rows = fold (\<lambda>item. AList.update (lower (sku item)) item) rows []"

definition dedupe_batch :: "product list \<Rightarrow> product list" where
  "dedupe_batch rows = map snd (dedupe_dict rows)"


section \<open>Relational store and Bulk Upsert Engine\<close>

text \<open>
  A stored row of the table \<open>products\<close> is a canonical record extended with the
  surrogate key and the two timestamps of the \<open>Product\<close> model. The database is
  the list of stored rows together with the sequence that feeds the key. Time is
  read through a parameter at each statement.
\<close>

record stored_product = product +
  row_id :: nat
  created_at :: nat
  updated_at :: nat

record database =
  products :: "stored_product list"
  id_seq :: nat

datatype db_error =
    StringDataRightTruncation
  | NumericValueOutOfRange
  | CardinalityViolation

datatype exn =
    ValueError string
  | FileNotFoundError string
  | CsvError string
  | DBAPIError db_error

definition fits_varchar :: "nat \<Rightarrow> string option \<Rightarrow> bool" where
  \<comment> \<open>a value of a \<open>String(n)\<close> column\<close>
  "fits_varchar n v = (case v of None \<Rightarrow> True | Some s \<Rightarrow> length s \<le> n)"

definition fits_int4 :: "int option \<Rightarrow> bool" where
  "fits_int4 v = (case v of None \<Rightarrow> True | Some i \<Rightarrow> - 2147483648 \<le> i \<and> i \<le> 2147483647)"

definition check_row :: "product \<Rightarrow> db_error option" where
  \<comment> \<open>the column types of \<open>Product\<close>: \<open>sku String(100)\<close>, \<open>name String(300)\<close>,
      \<open>description String(2000)\<close>, \<open>price_cents Integer\<close>\<close>
  "check_row p =
     (if \<not> fits_varchar 100 (Some (sku p)) then Some StringDataRightTruncation
      else if \<not> fits_varchar 300 (name p) then Some StringDataRightTruncation
      else if \<not> fits_varchar 2000 (description p) then Some StringDataRightTruncation
      else if \<not> fits_int4 (price_cents p) then Some NumericValueOutOfRange
      else None)"

definition conflicts :: "string \<Rightarrow> stored_product \<Rightarrow> bool" where
  \<comment> \<open>the unique index on \<open>lower(sku)\<close>\<close>
  "conflicts k r = (lower (sku r) = k)"

definition do_update :: "product \<Rightarrow> stored_product \<Rightarrow> stored_product" where
  \<comment> \<open>the \<open>set_\<close> of \<open>on_conflict_do_update\<close>\<close>
  "do_update p r = r\<lparr>name := name p, description := description p,
                      price_cents := price_cents p, active := active p\<rparr>"

definition new_row :: "nat \<Rightarrow> nat \<Rightarrow> product \<Rightarrow> stored_product" where
  "new_row i now p = product.extend p
     (stored_product.fields i now now)"

definition upsert_row :: "nat \<Rightarrow> product \<Rightarrow> database \<Rightarrow> database" where
  \<comment> \<open>one proposed row; the key default is drawn from the sequence before the
      conflict is looked for\<close>
  "upsert_row now p db =
     (let i = id_seq db; k = lower (sku p)
      in if list_ex (conflicts k) (products db)
         then \<lparr>products = map (\<lambda>r. if conflicts k r then do_update p r else r) (products db),
               id_seq = Suc i\<rparr>
         else \<lparr>products = products db @ [new_row i now p], id_seq = Suc i\<rparr>)"

fun execute_rows :: "nat \<Rightarrow> string list \<Rightarrow> product list \<Rightarrow> database \<Rightarrow> db_error + database" where
  \<comment> \<open>the rows of one statement in order; \<open>seen\<close> are the keys the statement has
      already inserted or updated\<close>
  "execute_rows now seen [] db = Inr db"
| "execute_rows now seen (p # ps) db =
     (case check_row p of
        Some e \<Rightarrow> Inl e
      | None \<Rightarrow>
          if lower (sku p) \<in> set seen then Inl CardinalityViolation
          else execute_rows now (lower (sku p) # seen) ps (upsert_row now p db))"

definition execute :: "nat \<Rightarrow> product list \<Rightarrow> database \<Rightarrow> db_error + (int \<times> database)" where
  \<comment> \<open>\<open>conn.execute(stmt)\<close>: the statement is atomic, its row count is the number of
      rows inserted or updated\<close>
  "execute now chunk db =
     (case execute_rows now [] chunk db of
        Inl e \<Rightarrow> Inl e
      | Inr db' \<Rightarrow> Inr (int (length chunk), db'))"

function chunk_loop :: "(nat \<Rightarrow> nat) \<Rightarrow> nat \<Rightarrow> nat \<Rightarrow> product list \<Rightarrow> int \<Rightarrow> database
                        \<Rightarrow> db_error + (int \<times> database)" where
  \<comment> \<open>\<open>for i in range(0, len(rows_list), chunk_size)\<close> for a positive \<open>chunk_size\<close>;
      \<open>rest\<close> is \<open>rows_list[i:]\<close>\<close>
  "chunk_loop utcnow chunk_size i rest processed db =
     (if chunk_size = 0 \<or> rest = [] then Inr (processed, db)
      else (let chunk = take chunk_size rest
            in case execute (utcnow i) chunk db of
                 Inl e \<Rightarrow> Inl e
               | Inr (rowcount, db') \<Rightarrow>
                   chunk_loop utcnow chunk_size (i + chunk_size) (drop chunk_size rest)
                     (processed + (if rowcount \<noteq> 0 then rowcount else int (length chunk))) db'))"
  by pat_completeness auto
termination
  by (relation "measure (\<lambda>(utcnow, chunk_size, i, rest, processed, db). length rest)") auto

declare chunk_loop.simps [simp del]

definition upsert_products_bulk ::
  "(nat \<Rightarrow> nat) \<Rightarrow> nat \<Rightarrow> product list \<Rightarrow> database \<Rightarrow> exn + (int \<times> database)" where
  \<comment> \<open>the whole call is one transaction: a failure leaves the table as it was\<close>
  "upsert_products_bulk utcnow chunk_size rows_list db =
     (if rows_list = [] then Inr (0, db)
      else if chunk_size = 0 then Inl (ValueError ''range() arg 3 must not be zero'')
      else (case chunk_loop utcnow chunk_size 0 rows_list 0 db of
              Inl e \<Rightarrow> Inl (DBAPIError e)
            | Inr r \<Rightarrow> Inr r))"

section \<open>Text files and the CSV reader\<close>

text \<open>
  A file is its decoded text. Text mode with the default \<open>newline=None\<close> turns
  \<open>\r\n\<close> and \<open>\r\<close> into \<open>\n\<close>; iterating the file gives the lines, each with
  its \<open>\n\<close>, the last one possibly without.
\<close>

definition LF :: char where "LF = CHR 0x0A"
definition CR :: char where "CR = CHR 0x0D"

fun universal_newlines :: "string \<Rightarrow> string" where
  "universal_newlines [] = []"
| "universal_newlines [c] = [if c = CR then LF else c]"
| "universal_newlines (c # d # ds) =
     (if c = CR \<and> d = LF then LF # universal_newlines ds
      else (if c = CR then LF else c) # universal_newlines (d # ds))"

fun lines_of :: "string \<Rightarrow> string list" where
  "lines_of [] = []"
| "lines_of (c # cs) =
     (if c = LF then [LF] # lines_of cs
      else (case lines_of cs of [] \<Rightarrow> [[c]] | l # ls \<Rightarrow> (c # l) # ls))"

definition file_lines :: "string \<Rightarrow> string list" where
  "file_lines content = lines_of (universal_newlines content)"

definition count_rows :: "string \<Rightarrow> int" where
  "count_rows content = max (int (length (file_lines content)) - 1) 0"

text \<open>
  The reader of the \<open>csv\<close> module with the \<open>excel\<close> dialect (delimiter \<open>,\<close>, quote
  character \<open>"\<close>, doubled quotes, no escape character, not strict): the states of
  its automaton that this dialect reaches, one step per character and one for the
  end of each line.
\<close>

datatype parser_state =
  START_RECORD | START_FIELD | IN_FIELD | IN_QUOTED_FIELD | QUOTE_IN_QUOTED_FIELD | EAT_CRNL

record reader =
  state :: parser_state
  rec_fields :: "string list"
  field :: string

definition field_limit :: nat where "field_limit = 131072"

definition parse_reset :: reader where
  "parse_reset = \<lparr>state = START_RECORD, rec_fields = [], field = []\<rparr>"

definition parse_save_field :: "reader \<Rightarrow> reader" where
  "parse_save_field r = r\<lparr>rec_fields := rec_fields r @ [field r], field := []\<rparr>"

definition parse_add_char :: "reader \<Rightarrow> char \<Rightarrow> exn + reader" where
  "parse_add_char r c =
     (if length (field r) \<ge> field_limit
      then Inl (CsvError ''field larger than field limit (131072)'')
      else Inr (r\<lparr>field := field r @ [c]\<rparr>))"

definition is_eol :: "char option \<Rightarrow> bool" where
  \<comment> \<open>\<open>c == '\n' || c == '\r' || c == EOL\<close>; \<open>None\<close> is the end-of-line marker\<close>
  "is_eol c = (c = None \<or> c = Some LF \<or> c = Some CR)"

definition after_eol :: "char option \<Rightarrow> parser_state" where
  "after_eol c = (if c = None then START_RECORD else EAT_CRNL)"

definition start_field :: "reader \<Rightarrow> char option \<Rightarrow> exn + reader" where
  "start_field r c =
     (if is_eol c then Inr ((parse_save_field r)\<lparr>state := after_eol c\<rparr>)
      else if c = Some (CHR 0x22) then Inr (r\<lparr>state := IN_QUOTED_FIELD\<rparr>)
      else if c = Some (CHR '','') then Inr (parse_save_field r)
      else (case parse_add_char r (the c) of
              Inl e \<Rightarrow> Inl e
            | Inr r' \<Rightarrow> Inr (r'\<lparr>state := IN_FIELD\<rparr>)))"

definition parse_process_char :: "reader \<Rightarrow> char option \<Rightarrow> exn + reader" where
  "parse_process_char r c =
     (case state r of
        START_RECORD \<Rightarrow>
          if c = None then Inr r
          else if c = Some LF \<or> c = Some CR then Inr (r\<lparr>state := EAT_CRNL\<rparr>)
          else start_field (r\<lparr>state := START_FIELD\<rparr>) c
      | START_FIELD \<Rightarrow> start_field r c
      | IN_FIELD \<Rightarrow>
          if is_eol c then Inr ((parse_save_field r)\<lparr>state := after_eol c\<rparr>)
          else if c = Some (CHR '','') then Inr ((parse_save_field r)\<lparr>state := START_FIELD\<rparr>)
          else parse_add_char r (the c)
      | IN_QUOTED_FIELD \<Rightarrow>
          if c = None then Inr r
          else if c = Some (CHR 0x22) then Inr (r\<lparr>state := QUOTE_IN_QUOTED_FIELD\<rparr>)
          else parse_add_char r (the c)
      | QUOTE_IN_QUOTED_FIELD \<Rightarrow>
          if c = Some (CHR 0x22)
          then (case parse_add_char r (CHR 0x22) of
                  Inl e \<Rightarrow> Inl e
                | Inr r' \<Rightarrow> Inr (r'\<lparr>state := IN_QUOTED_FIELD\<rparr>))
          else if c = Some (CHR '','') then Inr ((parse_save_field r)\<lparr>state := START_FIELD\<rparr>)
          else if is_eol c then Inr ((parse_save_field r)\<lparr>state := after_eol c\<rparr>)
          else (case parse_add_char r (the c) of
                  Inl e \<Rightarrow> Inl e
                | Inr r' \<Rightarrow> Inr (r'\<lparr>state := IN_FIELD\<rparr>))
      | EAT_CRNL \<Rightarrow>
          if c = Some LF \<or> c = Some CR then Inr r
          else if c = None then Inr (r\<lparr>state := START_RECORD\<rparr>)
          else Inl (CsvError ''new-line character seen in unquoted field''))"

fun feed_chars :: "reader \<Rightarrow> string \<Rightarrow> exn + reader" where
  "feed_chars r [] = parse_process_char r None"
| "feed_chars r (c # cs) =
     (case parse_process_char r (Some c) of
        Inl e \<Rightarrow> Inl e
      | Inr r' \<Rightarrow> feed_chars r' cs)"

fun read_records :: "reader \<Rightarrow> string list \<Rightarrow> string list list \<times> exn option" where
  \<comment> \<open>the records that iterating the reader yields from the remaining lines, and the
      error that ends the iteration, if one does\<close>
  "read_records r [] =
     (if field r \<noteq> [] \<or> state r = IN_QUOTED_FIELD
      then ([rec_fields (parse_save_field r)], None)
      else ([], None))"
| "read_records r (l # ls) =
     (case feed_chars r l of
        Inl e \<Rightarrow> ([], Some e)
      | Inr r' \<Rightarrow>
          if state r' = START_RECORD
          then (let (recs, e) = read_records parse_reset ls in (rec_fields r' # recs, e))
          else read_records r' ls)"

definition make_dict :: "string list \<Rightarrow> string list \<Rightarrow> raw_row" where
  \<comment> \<open>the row dictionary of \<open>DictReader\<close>. The entry under \<open>restkey = None\<close> for the
      surplus values of a long row is left out: its key is no string, it normalises
      to the empty name, which the normalizer never looks up.\<close>
  "make_dict fieldnames row =
     (let d = fold (\<lambda>(k, v). AList.update k (Some v)) (zip fieldnames row) []
      in if length fieldnames > length row
         then fold (\<lambda>k. AList.update k None) (drop (length row) fieldnames) d
         else d)"

definition dict_rows :: "string list \<Rightarrow> string list list \<Rightarrow> raw_row list" where
  \<comment> \<open>\<open>DictReader.__next__\<close> skips the empty records\<close>
  "dict_rows fieldnames recs = map (make_dict fieldnames) (filter (\<lambda>row. row \<noteq> []) recs)"


section \<open>Progress Reporter\<close>

text \<open>
  The key-value store is the sequence of \<open>SET\<close> commands it has received, the
  newest last; a read returns the value of the last command for the key.
\<close>

type_synonym kv_store = "(string \<times> string) list"

definition redis_set :: "string \<Rightarrow> string \<Rightarrow> kv_store \<Rightarrow> kv_store" where
  "redis_set k v r = r @ [(k, v)]"

definition redis_get :: "kv_store \<Rightarrow> string \<Rightarrow> string option" where
  "redis_get r k = map_of (rev r) k"

definition task_key :: "string \<Rightarrow> string \<Rightarrow> string" where
  "task_key task_id suffix = ''task:'' @ task_id @ '':'' @ suffix"

definition set_task_state :: "string \<Rightarrow> (string \<times> string) list \<Rightarrow> kv_store \<Rightarrow> kv_store" where
  \<comment> \<open>the keyword arguments in the order they are written\<close>
  "set_task_state task_id st r = fold (\<lambda>(key, v). redis_set (task_key task_id key) v) st r"


section \<open>Ingestion Orchestrator\<close>

fun str_exc :: "exn \<Rightarrow> string" where
  \<comment> \<open>\<open>str(exc)\<close>; the text of a database error is shortened to the server's message\<close>
  "str_exc (ValueError m) = m"
| "str_exc (FileNotFoundError p) = ''[Errno 2] No such file or directory: '' @ [CHR 0x27] @ p @ [CHR 0x27]"
| "str_exc (CsvError m) = m"
| "str_exc (DBAPIError StringDataRightTruncation) = ''value too long for type character varying''"
| "str_exc (DBAPIError NumericValueOutOfRange) = ''integer out of range''"
| "str_exc (DBAPIError CardinalityViolation) = ''ON CONFLICT DO UPDATE command cannot affect row a second time''"

definition py_int :: "string \<Rightarrow> int option" where
  \<comment> \<open>\<open>int(s)\<close> of a string: surrounding whitespace, a sign, digits with single
      underscores between them\<close>
  "py_int s0 =
     (let s = strip s0;
          (neg, body) = (case s of
                           [] \<Rightarrow> (False, [])
                         | c # r \<Rightarrow> if c = CHR ''-'' then (True, r)
                                    else if c = CHR ''+'' then (False, r)
                                    else (False, s))
      in if body = [] \<or> \<not> list_all (\<lambda>c. is_digit c \<or> c = CHR ''_'') body
            \<or> \<not> is_digit (hd body) \<or> \<not> is_digit (last body)
            \<or> list_ex (\<lambda>(a, b). a = CHR ''_'' \<and> b = CHR ''_'') (zip body (tl body))
         then None
         else (let n = int (digits_val (remove_char CHR ''_'' body))
               in Some (if neg then - n else n)))"

record world =
  fs :: "string \<Rightarrow> string option"
  redis :: kv_store
  db :: database

record loop_state =
  batch :: "product list"
  processed :: int
  invalid_rows :: int
  ls_redis :: kv_store
  ls_db :: database

definition default_chunk_size :: nat where "default_chunk_size = 5000"

definition flush_batch :: "(int \<Rightarrow> nat \<Rightarrow> nat) \<Rightarrow> loop_state \<Rightarrow> exn + loop_state" where
  \<comment> \<open>\<open>processed += upsert_products_bulk(_dedupe_batch(batch))\<close>\<close>
  "flush_batch utcnow st =
     (case upsert_products_bulk (utcnow (processed st)) default_chunk_size
             (dedupe_batch (batch st)) (ls_db st) of
        Inl e \<Rightarrow> Inl e
      | Inr (n, db') \<Rightarrow> Inr (st\<lparr>processed := processed st + n, ls_db := db'\<rparr>))"

fun import_rows ::
  "string \<Rightarrow> (int \<Rightarrow> nat \<Rightarrow> nat) \<Rightarrow> int \<Rightarrow> int \<Rightarrow> raw_row list \<Rightarrow> loop_state \<Rightarrow> exn option \<times> loop_state" where
  \<comment> \<open>the \<open>for row in reader\<close> loop; the result is the exception that left the loop, if
      any, and the state at that point\<close>
  "import_rows task_id utcnow batch_size total_rows [] st = (None, st)"
| "import_rows task_id utcnow batch_size total_rows (row # rest) st =
     (case normalize_row row of
        None \<Rightarrow> import_rows task_id utcnow batch_size total_rows rest
                  (st\<lparr>invalid_rows := invalid_rows st + 1\<rparr>)
      | Some product \<Rightarrow>
          (let st1 = st\<lparr>batch := batch st @ [product]\<rparr>
           in if int (length (batch st1)) \<ge> batch_size
              then (case flush_batch utcnow st1 of
                      Inl e \<Rightarrow> (Some e, st1)
                    | Inr st2 \<Rightarrow>
                        import_rows task_id utcnow batch_size total_rows rest
                          (st2\<lparr>batch := [],
                               ls_redis := set_task_state task_id
                                 [(''status'', ''importing ('' @ str_int (processed st2) @ ''/''
                                               @ str_int total_rows @ '')''),
                                  (''progress'', str_int (processed st2)),
                                  (''invalid'', str_int (invalid_rows st2))]
                                 (ls_redis st2)\<rparr>))
              else import_rows task_id utcnow batch_size total_rows rest st1))"

definition missing_sku :: exn where
  "missing_sku = ValueError (''CSV must include an '' @ [CHR 0x27] @ ''sku'' @ [CHR 0x27] @ '' column'')"

definition read_header :: "string list list \<Rightarrow> exn option \<Rightarrow> exn + (string list \<times> string list list)" where
  \<comment> \<open>\<open>reader.fieldnames\<close> and the check of the headers: the first record is the
      header, an error of the reader while it is read leaves the block, no record at
      all is no header\<close>
  "read_header recs err =
     (case recs of
        [] \<Rightarrow> (case err of Some e \<Rightarrow> Inl e | None \<Rightarrow> Inl missing_sku)
      | fieldnames # data \<Rightarrow>
          (let headers = set (map (\<lambda>h. lower (strip h)) fieldnames)
           in if headers = {} \<or> ''sku'' \<notin> headers then Inl missing_sku
              else Inr (fieldnames, data)))"

definition stream_rows ::
  "string \<Rightarrow> (int \<Rightarrow> nat \<Rightarrow> nat) \<Rightarrow> int \<Rightarrow> int \<Rightarrow> raw_row list \<Rightarrow> exn option \<Rightarrow> loop_state
     \<Rightarrow> exn option \<times> loop_state" where
  \<comment> \<open>the loop over the rows, the error of the reader that ends it, and the flush of
      the last batch\<close>
  "stream_rows task_id utcnow batch_size total_rows rows err st0 =
     (let (raised, st) = import_rows task_id utcnow batch_size total_rows rows st0
      in case (if raised = None then err else raised) of
           Some e \<Rightarrow> (Some e, st)
         | None \<Rightarrow>
             (if batch st \<noteq> [] 
              then (case flush_batch utcnow st of
                      Inl e \<Rightarrow> (Some e, st)
                    | Inr st' \<Rightarrow> (None, st'))
              else (None, st)))"

definition try_body ::
  "string \<Rightarrow> string \<Rightarrow> (int \<Rightarrow> nat \<Rightarrow> nat) \<Rightarrow> int \<Rightarrow> world \<Rightarrow> exn option \<times> world" where
  \<comment> \<open>the body of the \<open>try\<close>: the exception that leaves it, if any, and the world then\<close>
  "try_body task_id file_path utcnow batch_size w =
     (case fs w file_path of
        None \<Rightarrow> (Some (FileNotFoundError file_path), w)
      | Some content \<Rightarrow>
          (let total_rows = count_rows content;
               w1 = w\<lparr>redis := set_task_state task_id
                       [(''status'', ''parsing''), (''total'', str_int total_rows)] (redis w)\<rparr>;
               (recs, err) = read_records parse_reset (file_lines content)
           in case read_header recs err of
                Inl e \<Rightarrow> (Some e, w1)
              | Inr (fieldnames, data) \<Rightarrow>
                  (let (raised, st) =
                         stream_rows task_id utcnow batch_size total_rows
                           (dict_rows fieldnames data) err
                           \<lparr>batch = [], processed = 0, invalid_rows = 0,
                            ls_redis = redis w1, ls_db = db w1\<rparr>;
                       w2 = w1\<lparr>redis := ls_redis st, db := ls_db st\<rparr>
                   in case raised of
                        Some e \<Rightarrow> (Some e, w2)
                      | None \<Rightarrow>
                          (None, w2\<lparr>redis := set_task_state task_id
                                              [(''status'', ''complete''),
                                               (''progress'', str_int (processed st)),
                                               (''total'', str_int total_rows),
                                               (''invalid'', str_int (invalid_rows st))]
                                              (redis w2)\<rparr>))))"

definition os_remove :: "string \<Rightarrow> (string \<Rightarrow> string option) \<Rightarrow> exn + (string \<Rightarrow> string option)" where
  "os_remove path files =
     (case files path of
        None \<Rightarrow> Inl (FileNotFoundError path)
      | Some content \<Rightarrow> Inr (files(path := None)))"

definition cleanup :: "string \<Rightarrow> world \<Rightarrow> exn option \<times> world" where
  \<comment> \<open>the \<open>finally\<close> clause: \<open>FileNotFoundError\<close> is passed over, any other exception
      of the removal would leave the clause\<close>
  "cleanup file_path w =
     (case os_remove file_path (fs w) of
        Inr files \<Rightarrow> (None, w\<lparr>fs := files\<rparr>)
      | Inl (FileNotFoundError p) \<Rightarrow> (None, w)
      | Inl e \<Rightarrow> (Some e, w))"

datatype outcome = Returned | Raised exn

definition getenv_batch_size :: "string option \<Rightarrow> exn + int" where
  \<comment> \<open>\<open>int(os.getenv("IMPORT_BATCH_SIZE", "5000"))\<close>\<close>
  "getenv_batch_size env =
     (let s = (case env of None \<Rightarrow> ''5000'' | Some v \<Rightarrow> v)
      in case py_int s of
           None \<Rightarrow> Inl (ValueError (''invalid literal for int() with base 10: ''
                                     @ [CHR 0x27] @ s @ [CHR 0x27]))
         | Some n \<Rightarrow> Inr n)"

definition import_products_task ::
  "string \<Rightarrow> string \<Rightarrow> string option \<Rightarrow> (int \<Rightarrow> nat \<Rightarrow> nat) \<Rightarrow> world \<Rightarrow> outcome \<times> world" where
  "import_products_task task_id file_path env utcnow w =
     (let w0 = w\<lparr>redis := set_task_state task_id
                   [(''status'', ''initializing''), (''progress'', str_int 0),
                    (''total'', str_int 0), (''invalid'', str_int 0)] (redis w)\<rparr>
      in case getenv_batch_size env of
           Inl e \<Rightarrow> (Raised e, w0)
         | Inr batch_size \<Rightarrow>
             (let (raised, w1) = try_body task_id file_path utcnow batch_size w0;
                  w2 = (case raised of
                          None \<Rightarrow> w1
                        | Some exc \<Rightarrow> w1\<lparr>redis := set_task_state task_id
                                          [(''status'', ''error: '' @ str_exc exc),
                                           (''error'', str_exc exc)] (redis w1)\<rparr>);
                  (raised', w3) = cleanup file_path w2
              in case raised' of
                   Some e \<Rightarrow> (Raised e, w3)
                 | None \<Rightarrow> (case raised of None \<Rightarrow> (Returned, w3) | Some exc \<Rightarrow> (Raised exc, w3))))"


section \<open>Status read by the polling client\<close>

definition int_value :: "kv_store \<Rightarrow> string \<Rightarrow> string \<Rightarrow> int" where
  \<comment> \<open>\<open>_int_value\<close> of \<open>task_status\<close>: a missing or empty value is 0, a value that is no
      integer is 0\<close>
  "int_value r task_id key =
     (case redis_get r (task_key task_id key) of
        None \<Rightarrow> 0
      | Some s \<Rightarrow> if s = [] then 0 else (case py_int s of None \<Rightarrow> 0 | Some n \<Rightarrow> n))"

definition percent :: "(real \<Rightarrow> real) \<Rightarrow> (real \<Rightarrow> real) \<Rightarrow> kv_store \<Rightarrow> kv_store \<Rightarrow> string \<Rightarrow> real option" where
  \<comment> \<open>\<open>round((processed / total) * 100, 2) if total else None\<close>. The two counters are
      read by two commands: \<open>r_progress\<close> is the store at the first, \<open>r_total\<close> the
      store at the second. The rounding of a float operation to a double is \<open>fl\<close>, the
      rounding to two decimals is \<open>round2\<close>.\<close>
  "percent fl round2 r_progress r_total task_id =
     (let processed_v = int_value r_progress task_id ''progress'';
          total_v = int_value r_total task_id ''total''
      in if total_v \<noteq> 0
         then Some (round2 (fl (fl (real_of_int processed_v / real_of_int total_v) * 100)))
         else None)"


section \<open>Notions of the specification\<close>

fun last_with_key :: "string \<Rightarrow> product list \<Rightarrow> product option" where
  \<comment> \<open>the last record of the list whose case-insensitive sku is \<open>k\<close>\<close>
  "last_with_key k [] = None"
| "last_with_key k (p # ps) =
     (case last_with_key k ps of
        Some q \<Rightarrow> Some q
      | None \<Rightarrow> if lower (sku p) = k then Some p else None)"

definition updated_by :: "product list \<Rightarrow> stored_product \<Rightarrow> stored_product" where
  \<comment> \<open>a stored row after the conflict updates of a batch: the last record of the batch
      with the row's key overwrites it\<close>
  "updated_by rows r =
     (case last_with_key (lower (sku r)) rows of None \<Rightarrow> r | Some p \<Rightarrow> do_update p r)"

definition stored_keys :: "database \<Rightarrow> string set" where
  "stored_keys d = (\<lambda>r. lower (sku r)) ` set (products d)"

definition batch_keys :: "product list \<Rightarrow> string set" where
  "batch_keys rows = (\<lambda>p. lower (sku p)) ` set rows"

definition evolves :: "product list \<Rightarrow> database \<Rightarrow> database \<Rightarrow> bool" where
  \<comment> \<open>how a successful upsert of \<open>rows\<close> relates the table before and after: the rows
      that were there stay in place and are overwritten by \<open>updated_by\<close>, the rows
      behind them are new keys of the batch\<close>
  "evolves rows d d' \<longleftrightarrow>
     length (products d) \<le> length (products d') \<and>
     take (length (products d)) (products d') = map (updated_by rows) (products d) \<and>
     (\<forall>r \<in> set (drop (length (products d)) (products d')).
         lower (sku r) \<notin> stored_keys d \<and> lower (sku r) \<in> batch_keys rows \<and> updated_by rows r = r) \<and>
     batch_keys rows \<subseteq> stored_keys d'"



definition csv_header :: "string \<Rightarrow> string list option" where
  \<comment> \<open>the header row of a file: its first record, if it has one\<close>
  "csv_header content =
     (case fst (read_records parse_reset (file_lines content)) of
        [] \<Rightarrow> None
      | fieldnames # data \<Rightarrow> Some fieldnames)"

definition has_sku_header :: "string \<Rightarrow> bool" where
  "has_sku_header content =
     (case csv_header content of
        None \<Rightarrow> False
      | Some fieldnames \<Rightarrow> ''sku'' \<in> set (map (\<lambda>h. lower (strip h)) fieldnames))"

definition header_error :: "string \<Rightarrow> exn" where
  \<comment> \<open>the exception for a file without a usable header: the reader's own error when
      it fails on the first record, the missing-column error otherwise\<close>
  "header_error content =
     (case read_records parse_reset (file_lines content) of
        ([], Some e) \<Rightarrow> e
      | _ \<Rightarrow> missing_sku)"

definition csv_rows :: "string \<Rightarrow> raw_row list" where
  \<comment> \<open>the data rows of a file as the loop of the job sees them\<close>
  "csv_rows content =
     (case fst (read_records parse_reset (file_lines content)) of
        [] \<Rightarrow> []
      | fieldnames # data \<Rightarrow> dict_rows fieldnames data)"

definition writes_of :: "string \<Rightarrow> string \<Rightarrow> kv_store \<Rightarrow> string list" where
  \<comment> \<open>the values that a sequence of commands sets for one field of a job, in order\<close>
  "writes_of task_id key ws = map snd (filter (\<lambda>(k, v). k = task_key task_id key) ws)"


definition progress_trace :: "string \<Rightarrow> int \<Rightarrow> int \<Rightarrow> kv_store \<Rightarrow> bool" where
  \<comment> \<open>a sequence of commands that sets no total and sets progress to a non-decreasing
      sequence of counts between \<open>lo\<close> and \<open>hi\<close>\<close>
  "progress_trace task_id lo hi ws \<longleftrightarrow>
     writes_of task_id ''total'' ws = [] \<and>
     (\<exists>ns. writes_of task_id ''progress'' ws = map str_int ns \<and> sorted ns
           \<and> (\<forall>n \<in> set ns. lo \<le> n \<and> n \<le> hi))"

definition job_trace :: "string \<Rightarrow> kv_store \<Rightarrow> bool" where
  \<comment> \<open>a sequence of commands that sets total to one and the same count, and progress
      to a non-decreasing sequence of counts that are not negative\<close>
  "job_trace task_id ws \<longleftrightarrow>
     (\<exists>k n. 0 \<le> n \<and> writes_of task_id ''total'' ws = replicate k (str_int n)) \<and>
     (\<exists>ns. writes_of task_id ''progress'' ws = map str_int ns \<and> sorted ns
           \<and> (\<forall>n \<in> set ns. 0 \<le> n))"

definition init_writes :: "string \<Rightarrow> kv_store" where
  "init_writes task_id =
     [(task_key task_id ''status'', ''initializing''), (task_key task_id ''progress'', str_int 0),
      (task_key task_id ''total'', str_int 0), (task_key task_id ''invalid'', str_int 0)]"

definition error_writes :: "string \<Rightarrow> exn \<Rightarrow> kv_store" where
  "error_writes task_id exc =
     [(task_key task_id ''status'', ''error: '' @ str_exc exc), (task_key task_id ''error'', str_exc exc)]"


definition snapshot :: "world \<Rightarrow> world \<Rightarrow> nat \<Rightarrow> kv_store" where
  \<comment> \<open>the status store after the first \<open>k\<close> commands of a job that took the world
      from \<open>w\<close> to \<open>w'\<close>\<close>
  "snapshot w w' k = take (length (redis w) + k) (redis w')"


section \<open>Example inputs\<close>

definition scenario_csv :: string where
  "scenario_csv = ''sku,name,price'' @ [LF] @ ''A1,Widget,$12.50'' @ [LF] @ '',NoKey,5'' @ [LF]
                  @ ''A1,Widget2,9.99'' @ [LF]"

definition headerless_csv :: string where
  "headerless_csv = ''name,price'' @ [LF] @ ''Widget,5'' @ [LF]"


definition upload_path :: string where
  "upload_path = ''/tmp/upload.csv''"

definition start_world :: "string \<Rightarrow> world" where
  \<comment> \<open>the uploaded file, an empty status store and an empty table\<close>
  "start_world content =
     \<lparr>fs = Map.empty(upload_path \<mapsto> content), redis = [], db = \<lparr>products = [], id_seq = 1\<rparr>\<rparr>"

definition fixed_clock :: "int \<Rightarrow> nat \<Rightarrow> nat" where
  "fixed_clock p i = 42"


section \<open>Properties of the Batch Deduplicator\<close>

lemma last_with_key_key: "last_with_key k rows = Some p \<Longrightarrow> lower (sku p) = k \<and> p \<in> set rows"
  by (induction rows) (auto split: option.splits if_splits)

lemma last_with_key_None: "last_with_key k rows = None \<longleftrightarrow> k \<notin> (\<lambda>p. lower (sku p)) ` set rows"
  by (induction rows) (auto split: option.splits if_splits)

lemma dedupe_map_of:
  "map_of (fold (\<lambda>item. AList.update (lower (sku item)) item) rows acc) k =
     (case last_with_key k rows of Some p \<Rightarrow> Some p | None \<Rightarrow> map_of acc k)"
  by (induction rows arbitrary: acc) (auto simp add: update_conv' split: option.splits)

lemma dedupe_distinct:
  "distinct (map fst acc) \<Longrightarrow>
   distinct (map fst (fold (\<lambda>item. AList.update (lower (sku item)) item) rows acc))"
  by (induction rows arbitrary: acc) (simp_all add: distinct_update)

lemma dedupe_dict_map_of: "map_of (dedupe_dict rows) k = last_with_key k rows"
  by (simp add: dedupe_dict_def dedupe_map_of split: option.splits)

lemma dedupe_dict_distinct: "distinct (map fst (dedupe_dict rows))"
  by (simp add: dedupe_dict_def dedupe_distinct)

lemma dedupe_dict_entry:
  assumes "(k, p) \<in> set (dedupe_dict rows)"
  shows "last_with_key k rows = Some p" and "lower (sku p) = k"
proof -
  have "map_of (dedupe_dict rows) k = Some p"
    using assms dedupe_dict_distinct by (simp add: map_of_eq_Some_iff)
  then show "last_with_key k rows = Some p" by (simp add: dedupe_dict_map_of)
  then show "lower (sku p) = k" by (simp add: last_with_key_key)
qed

lemma dedupe_batch_keys:
  "map (\<lambda>p. lower (sku p)) (dedupe_batch rows) = map fst (dedupe_dict rows)"
  unfolding dedupe_batch_def map_map
  by (rule map_cong[OF refl]) (auto dest: dedupe_dict_entry(2))

lemma dedupe_batch_distinct: "distinct (map (\<lambda>p. lower (sku p)) (dedupe_batch rows))"
  by (simp add: dedupe_batch_keys dedupe_dict_distinct)

lemma dedupe_batch_member:
  "p \<in> set (dedupe_batch rows) \<Longrightarrow> last_with_key (lower (sku p)) rows = Some p"
proof -
  assume "p \<in> set (dedupe_batch rows)"
  then obtain k where "(k, p) \<in> set (dedupe_dict rows)"
    by (auto simp: dedupe_batch_def)
  then show ?thesis using dedupe_dict_entry by blast
qed

lemma dedupe_batch_covers:
  assumes "r \<in> set rows"
  shows "\<exists>p \<in> set (dedupe_batch rows). lower (sku p) = lower (sku r)"
proof -
  obtain p where p: "last_with_key (lower (sku r)) rows = Some p"
    using assms last_with_key_None[of "lower (sku r)" rows]
    by (cases "last_with_key (lower (sku r)) rows") auto
  then have "map_of (dedupe_dict rows) (lower (sku r)) = Some p"
    by (simp add: dedupe_dict_map_of)
  then have "(lower (sku r), p) \<in> set (dedupe_dict rows)"
    by (rule map_of_SomeD)
  then have "p \<in> set (dedupe_batch rows)"
    by (force simp: dedupe_batch_def)
  moreover have "lower (sku p) = lower (sku r)"
    using p by (simp add: last_with_key_key)
  ultimately show ?thesis by blast
qed

text \<open>
  Claim C3. For every ordered list of canonical records, the list returned by
  \<open>dedupe_batch\<close> holds at most one record per case-insensitive sku (the lower-cased
  skus of the result are pairwise distinct), every record it holds is the last record
  of the input with that lower-cased sku, and every key of the input is retained.
\<close>

theorem dedupe_batch_last_wins:
  "distinct (map (\<lambda>p. lower (sku p)) (dedupe_batch rows)) \<and>
   (\<forall>p \<in> set (dedupe_batch rows). last_with_key (lower (sku p)) rows = Some p) \<and>
   (\<forall>r \<in> set rows. \<exists>p \<in> set (dedupe_batch rows). lower (sku p) = lower (sku r))"
  using dedupe_batch_distinct dedupe_batch_member dedupe_batch_covers by blast

theorem dedupe_batch_last_wins_witness:
  "\<lparr>sku = ''A1'', name = Some ''Widget2'', description = None, price_cents = Some 999, active = True\<rparr>
     \<in> set (dedupe_batch
         [\<lparr>sku = ''a1'', name = Some ''Widget'', description = None, price_cents = Some 1250, active = True\<rparr>,
          \<lparr>sku = ''B2'', name = None, description = None, price_cents = None, active = False\<rparr>,
          \<lparr>sku = ''A1'', name = Some ''Widget2'', description = None, price_cents = Some 999, active = True\<rparr>])
   \<and> last_with_key (lower ''A1'')
         [\<lparr>sku = ''a1'', name = Some ''Widget'', description = None, price_cents = Some 1250, active = True\<rparr>,
          \<lparr>sku = ''B2'', name = None, description = None, price_cents = None, active = False\<rparr>,
          \<lparr>sku = ''A1'', name = Some ''Widget2'', description = None, price_cents = Some 999, active = True\<rparr>]
       = Some \<lparr>sku = ''A1'', name = Some ''Widget2'', description = None, price_cents = Some 999, active = True\<rparr>"
proof -
  let ?rows = "[\<lparr>sku = ''a1'', name = Some ''Widget'', description = None, price_cents = Some 1250, active = True\<rparr>,
          \<lparr>sku = ''B2'', name = None, description = None, price_cents = None, active = False\<rparr>,
          \<lparr>sku = ''A1'', name = Some ''Widget2'', description = None, price_cents = Some 999, active = True\<rparr>]"
  have mem: "\<lparr>sku = ''A1'', name = Some ''Widget2'', description = None, price_cents = Some 999, active = True\<rparr>
     \<in> set (dedupe_batch ?rows)"
    by (simp add: dedupe_batch_def dedupe_dict_def lower_def lower_char_def)
  from dedupe_batch_last_wins[of ?rows] mem show ?thesis
    by auto
qed


section \<open>Properties of the Bulk Upsert Engine\<close>

lemma sku_do_update [simp]: "sku (do_update p r) = sku r"
  by (simp add: do_update_def)

lemma do_update_twice [simp]: "do_update q (do_update p r) = do_update q r"
  by (simp add: do_update_def)

lemma sku_updated_by [simp]: "sku (updated_by rows r) = sku r"
  by (simp add: updated_by_def split: option.splits)

lemma last_with_key_append:
  "last_with_key k (ps @ qs) = (case last_with_key k qs of Some q \<Rightarrow> Some q | None \<Rightarrow> last_with_key k ps)"
  by (induction ps) (auto split: option.splits)

lemma last_with_key_Some_iff: "(\<exists>p. last_with_key k rows = Some p) \<longleftrightarrow> k \<in> batch_keys rows"
  unfolding batch_keys_def by (induction rows) (auto split: option.splits)

lemma updated_by_append: "updated_by (ps @ qs) r = updated_by qs (updated_by ps r)"
  by (auto simp: updated_by_def last_with_key_append split: option.splits)

lemma updated_by_idem [simp]: "updated_by rows (updated_by rows r) = updated_by rows r"
  by (auto simp: updated_by_def split: option.splits)

lemma updated_by_sandwich:
  "updated_by qs (updated_by ps (updated_by qs r)) = updated_by qs (updated_by ps r)"
  by (auto simp: updated_by_def split: option.splits)

lemma updated_by_absorb:
  "lower (sku r) \<in> batch_keys qs \<Longrightarrow> updated_by qs (updated_by ps r) = updated_by qs r"
  using last_with_key_Some_iff[of "lower (sku r)" qs]
  by (auto simp: updated_by_def split: option.splits)

lemma updated_by_Nil [simp]: "updated_by [] r = r"
  by (simp add: updated_by_def)

lemma batch_keys_append [simp]: "batch_keys (ps @ qs) = batch_keys ps \<union> batch_keys qs"
  by (auto simp: batch_keys_def)

lemma evolves_refl: "evolves [] d d"
  by (simp add: evolves_def map_idI batch_keys_def)

lemma stored_keys_evolves:
  assumes "evolves ps d d1" shows "stored_keys d \<subseteq> stored_keys d1"
proof
  fix k assume "k \<in> stored_keys d"
  then obtain r where r: "r \<in> set (products d)" "k = lower (sku r)" by (auto simp: stored_keys_def)
  then have "updated_by ps r \<in> set (take (length (products d)) (products d1))"
    using assms by (simp add: evolves_def)
  then have "updated_by ps r \<in> set (products d1)" by (rule in_set_takeD)
  then show "k \<in> stored_keys d1" using r(2)
    by (auto simp: stored_keys_def intro!: image_eqI[where x="updated_by ps r"])
qed

lemma evolves_trans:
  assumes a: "evolves ps d d1" and b: "evolves qs d1 d2"
  shows "evolves (ps @ qs) d d2"
proof -
  let ?n = "length (products d)" and ?n1 = "length (products d1)"
  have le: "?n \<le> ?n1" "?n1 \<le> length (products d2)" using a b by (simp_all add: evolves_def)
  have t1: "take ?n (products d1) = map (updated_by ps) (products d)" using a by (simp add: evolves_def)
  have t2: "take ?n1 (products d2) = map (updated_by qs) (products d1)" using b by (simp add: evolves_def)
  have "take ?n (products d2) = take ?n (take ?n1 (products d2))"
    using le by (simp add: min_def)
  also have "\<dots> = map (updated_by qs) (take ?n (products d1))"
    by (simp add: t2 take_map)
  also have "\<dots> = map (updated_by (ps @ qs)) (products d)"
    by (simp add: t1 updated_by_append)
  finally have T: "take ?n (products d2) = map (updated_by (ps @ qs)) (products d)" .
  have N: "lower (sku r) \<notin> stored_keys d \<and> lower (sku r) \<in> batch_keys (ps @ qs) \<and> updated_by (ps @ qs) r = r"
    if r: "r \<in> set (drop ?n (products d2))" for r
  proof -
    have "products d2 = take ?n1 (products d2) @ drop ?n1 (products d2)" by simp
    then have "drop ?n (products d2) = drop ?n (take ?n1 (products d2)) @ drop ?n1 (products d2)"
      using le by (metis drop_append length_take min.absorb2 diff_is_0_eq drop0)
    then have "r \<in> set (drop ?n (map (updated_by qs) (products d1))) \<or> r \<in> set (drop ?n1 (products d2))"
      using r t2 by auto
    then show ?thesis
    proof
      assume "r \<in> set (drop ?n (map (updated_by qs) (products d1)))"
      then obtain r0 where r0: "r0 \<in> set (drop ?n (products d1))" "r = updated_by qs r0"
        by (auto simp: drop_map)
      then have "lower (sku r0) \<notin> stored_keys d" "lower (sku r0) \<in> batch_keys ps" "updated_by ps r0 = r0"
        using a by (auto simp: evolves_def)
      then show ?thesis using r0(2)
        by (simp add: updated_by_append updated_by_sandwich)
    next
      assume n: "r \<in> set (drop ?n1 (products d2))"
      then have k: "lower (sku r) \<notin> stored_keys d1" "lower (sku r) \<in> batch_keys qs" "updated_by qs r = r"
        using b by (auto simp: evolves_def)
      then show ?thesis using stored_keys_evolves[OF a]
        by (auto simp: updated_by_append updated_by_absorb)
    qed
  qed
  have K: "batch_keys (ps @ qs) \<subseteq> stored_keys d2"
    using a b stored_keys_evolves[OF b] by (auto simp: evolves_def)
  show ?thesis using le T N K by (simp add: evolves_def)
qed

lemma do_update_new_row [simp]: "do_update p (new_row i now p) = new_row i now p"
  by (simp add: do_update_def new_row_def product.defs stored_product.defs)

lemma sku_new_row [simp]: "sku (new_row i now p) = sku p"
  by (simp add: new_row_def product.defs stored_product.defs)

lemma evolves_upsert_row: "evolves [p] d (upsert_row now p d)"
proof (cases "list_ex (conflicts (lower (sku p))) (products d)")
  case True
  have "map (\<lambda>r. if conflicts (lower (sku p)) r then do_update p r else r) (products d)
        = map (updated_by [p]) (products d)"
    by (rule map_cong) (auto simp: updated_by_def conflicts_def)
  moreover have "lower (sku p) \<in> stored_keys (upsert_row now p d)"
  proof -
    from True obtain r where r: "r \<in> set (products d)" "lower (sku r) = lower (sku p)"
      by (auto simp: list_ex_iff conflicts_def)
    then have "do_update p r \<in> set (products (upsert_row now p d))"
      using True by (force simp: upsert_row_def Let_def conflicts_def)
    then have "lower (sku (do_update p r)) \<in> stored_keys (upsert_row now p d)"
      unfolding stored_keys_def by (rule imageI)
    then show ?thesis using r(2) by simp
  qed
  ultimately show ?thesis using True
    by (simp add: evolves_def upsert_row_def Let_def batch_keys_def)
next
  case False
  then have "\<forall>r \<in> set (products d). lower (sku r) \<noteq> lower (sku p)"
    by (auto simp: list_ex_iff conflicts_def)
  then have m: "map (updated_by [p]) (products d) = products d"
    by (intro map_idI) (auto simp: updated_by_def)
  have k: "lower (sku p) \<notin> stored_keys d"
    using False by (auto simp: list_ex_iff conflicts_def stored_keys_def)
  show ?thesis using False m k
    by (simp add: evolves_def upsert_row_def Let_def batch_keys_def stored_keys_def updated_by_def)
qed

lemma evolves_execute_rows:
  "execute_rows now seen ps d = Inr d' \<Longrightarrow> evolves ps d d'"
proof (induction ps arbitrary: seen d)
  case Nil
  then show ?case by (simp add: evolves_refl)
next
  case (Cons p ps)
  from Cons.prems have "execute_rows now (lower (sku p) # seen) ps (upsert_row now p d) = Inr d'"
    by (auto split: option.splits if_splits)
  then have "evolves ps (upsert_row now p d) d'" by (rule Cons.IH)
  with evolves_upsert_row[of p d now] have "evolves ([p] @ ps) d d'" by (rule evolves_trans)
  then show ?case by simp
qed

lemma evolves_execute:
  "execute now chunk d = Inr (rc, d') \<Longrightarrow> evolves chunk d d' \<and> rc = int (length chunk)"
  by (auto simp: execute_def split: sum.splits dest: evolves_execute_rows)

lemma evolves_chunk_loop:
  "chunk_loop utcnow cs i rest acc d = Inr (n, d') \<Longrightarrow> evolves rest d d' \<or> (cs = 0 \<and> d' = d)"
proof (induction utcnow cs i rest acc d rule: chunk_loop.induct)
  case (1 utcnow cs i rest acc d)
  show ?case
  proof (cases "cs = 0 \<or> rest = []")
    case True
    with "1.prems" have "d' = d" by (simp add: chunk_loop.simps)
    then show ?thesis using True evolves_refl by auto
  next
    case False
    from "1.prems" False obtain rc d1 where
      ex: "execute (utcnow i) (take cs rest) d = Inr (rc, d1)" and
      rest: "chunk_loop utcnow cs (i + cs) (drop cs rest)
               (acc + (if rc \<noteq> 0 then rc else int (length (take cs rest)))) d1 = Inr (n, d')"
      by (subst (asm) chunk_loop.simps) (auto simp: Let_def split: sum.splits)
    have e1: "evolves (take cs rest) d d1" using ex evolves_execute by blast
    have "evolves (drop cs rest) d1 d'"
      using "1.IH"[OF False refl ex[symmetric, THEN sym] refl rest] False by auto
    with e1 have "evolves (take cs rest @ drop cs rest) d d'" by (rule evolves_trans)
    then show ?thesis by simp
  qed
qed

lemma evolves_upsert_products_bulk:
  "upsert_products_bulk utcnow cs rows d = Inr (n, d') \<Longrightarrow> evolves rows d d'"
  using evolves_refl
  by (auto simp: upsert_products_bulk_def split: if_splits sum.splits dest: evolves_chunk_loop)

lemma evolves_again:
  assumes a: "evolves rows d d1" and b: "evolves rows d1 d2"
  shows "products d2 = products d1"
proof -
  have fixed: "updated_by rows r = r" if "r \<in> set (products d1)" for r
  proof -
    have "products d1 = take (length (products d)) (products d1) @ drop (length (products d)) (products d1)"
      by simp
    then have "r \<in> set (take (length (products d)) (products d1)) \<or> r \<in> set (drop (length (products d)) (products d1))"
      using that by (metis Un_iff set_append)
    then show ?thesis using a by (auto simp: evolves_def)
  qed
  have "drop (length (products d1)) (products d2) = []"
  proof (rule ccontr)
    assume "drop (length (products d1)) (products d2) \<noteq> []"
    then obtain r where "r \<in> set (drop (length (products d1)) (products d2))"
      by (meson last_in_set)
    then have "lower (sku r) \<notin> stored_keys d1" "lower (sku r) \<in> batch_keys rows"
      using b by (auto simp: evolves_def)
    then show False using a by (auto simp: evolves_def)
  qed
  then have "products d2 = take (length (products d1)) (products d2)"
    by (metis append_Nil2 append_take_drop_id)
  also have "\<dots> = map (updated_by rows) (products d1)" using b by (simp add: evolves_def)
  also have "\<dots> = products d1" using fixed by (simp add: map_idI)
  finally show ?thesis .
qed

lemma execute_rows_ok:
  "distinct (map (\<lambda>p. lower (sku p)) ps) \<Longrightarrow> batch_keys ps \<inter> set seen = {} \<Longrightarrow>
   \<forall>p \<in> set ps. check_row p = None \<Longrightarrow> \<exists>d'. execute_rows now seen ps d = Inr d'"
proof (induction ps arbitrary: seen d)
  case Nil
  then show ?case by simp
next
  case (Cons p ps)
  have "batch_keys ps \<inter> set (lower (sku p) # seen) = {}"
    using Cons.prems(1,2) by (auto simp: batch_keys_def)
  then have "\<exists>d'. execute_rows now (lower (sku p) # seen) ps (upsert_row now p d) = Inr d'"
    using Cons.prems by (intro Cons.IH) auto
  moreover have "lower (sku p) \<notin> set seen" using Cons.prems(2) by (auto simp: batch_keys_def)
  ultimately show ?case using Cons.prems(3) by simp
qed

lemma chunk_loop_ok:
  "0 < cs \<Longrightarrow> distinct (map (\<lambda>p. lower (sku p)) rest) \<Longrightarrow> \<forall>p \<in> set rest. check_row p = None \<Longrightarrow>
   \<exists>d'. chunk_loop utcnow cs i rest acc d = Inr (acc + int (length rest), d')"
proof (induction utcnow cs i rest acc d rule: chunk_loop.induct)
  case (1 utcnow cs i rest acc d)
  show ?case
  proof (cases "rest = []")
    case True
    then show ?thesis by (simp add: chunk_loop.simps)
  next
    case False
    have "distinct (map (\<lambda>p. lower (sku p)) (take cs rest))"
      using "1.prems"(2) by (simp add: distinct_take take_map[symmetric])
    moreover have "\<forall>p \<in> set (take cs rest). check_row p = None"
      using "1.prems"(3) by (meson in_set_takeD)
    ultimately obtain d1 where x: "execute_rows (utcnow i) [] (take cs rest) d = Inr d1"
      using execute_rows_ok[of "take cs rest" "[]" "utcnow i" d] by auto
    then have ex: "execute (utcnow i) (take cs rest) d = Inr (int (length (take cs rest)), d1)"
      by (simp add: execute_def)
    have nz: "take cs rest \<noteq> []" using False "1.prems"(1) by simp
    have dd: "distinct (map (\<lambda>p. lower (sku p)) (drop cs rest))"
      using "1.prems"(2) by (simp add: distinct_drop drop_map[symmetric])
    have cc: "\<forall>p \<in> set (drop cs rest). check_row p = None"
      using "1.prems"(3) by (meson in_set_dropD)
    have c: "\<not> (cs = 0 \<or> rest = [])" using False "1.prems"(1) by simp
    obtain d' where
      "chunk_loop utcnow cs (i + cs) (drop cs rest)
          (acc + (if int (length (take cs rest)) \<noteq> 0 then int (length (take cs rest)) else int (length (take cs rest)))) d1
        = Inr (acc + (if int (length (take cs rest)) \<noteq> 0 then int (length (take cs rest)) else int (length (take cs rest)))
                 + int (length (drop cs rest)), d')"
      using "1.IH"[OF c refl ex[symmetric, THEN sym] refl "1.prems"(1) dd cc] by blast
    then have "chunk_loop utcnow cs i rest acc d = Inr (acc + int (length rest), d')"
      using c ex by (subst chunk_loop.simps) (simp add: Let_def min_def)
    then show ?thesis by blast
  qed
qed

lemma upsert_products_bulk_ok:
  assumes "0 < cs" "distinct (map (\<lambda>p. lower (sku p)) rows)" "\<forall>p \<in> set rows. check_row p = None"
  shows "\<exists>d'. upsert_products_bulk utcnow cs rows d = Inr (int (length rows), d')"
  using chunk_loop_ok[OF assms, of utcnow 0 0 d] assms(1)
  by (auto simp: upsert_products_bulk_def)

lemma upsert_products_bulk_empty: "upsert_products_bulk utcnow chunk_size [] d = Inr (0, d)"
  by (simp add: upsert_products_bulk_def)

lemma evolves_nth:
  assumes "evolves rows d d'" and "i < length (products d)"
  shows "products d' ! i = updated_by rows (products d ! i)"
proof -
  have "products d' ! i = take (length (products d)) (products d') ! i"
    using assms(2) by simp
  also have "\<dots> = updated_by rows (products d ! i)"
    using assms by (simp add: evolves_def)
  finally show ?thesis .
qed

lemma frame_do_update:
  "sku (do_update p r) = sku r \<and> row_id (do_update p r) = row_id r
   \<and> created_at (do_update p r) = created_at r \<and> updated_at (do_update p r) = updated_at r"
  by (simp add: do_update_def)

lemma frame_updated_by:
  "sku (updated_by rows r) = sku r \<and> row_id (updated_by rows r) = row_id r
   \<and> created_at (updated_by rows r) = created_at r"
  by (simp add: updated_by_def frame_do_update split: option.splits)

text \<open>
  Claim C6. Whenever an upsert of a batch succeeds, every row that was stored before is
  still at its place afterwards; a row whose case-insensitive sku matches a record of the
  batch differs from its old value only in \<open>name\<close>, \<open>description\<close>, \<open>price_cents\<close> and
  \<open>active\<close>, which are those of the (last) matching record, and every other old row is
  unchanged; the \<open>sku\<close>, the surrogate \<open>row_id\<close> and \<open>created_at\<close> of every old row are
  unchanged; and the rows added behind the old ones have keys that no old row had, so
  no second row is created for a key that was stored.
\<close>

theorem upsert_existing_frame:
  assumes "upsert_products_bulk utcnow chunk_size rows d = Inr (n, d')"
  shows "length (products d) \<le> length (products d') \<and>
         take (length (products d)) (products d') =
           map (\<lambda>r. case last_with_key (lower (sku r)) rows of
                       None \<Rightarrow> r
                     | Some p \<Rightarrow> r\<lparr>name := name p, description := description p,
                                    price_cents := price_cents p, active := active p\<rparr>)
               (products d) \<and>
         (\<forall>i < length (products d).
            sku (products d' ! i) = sku (products d ! i) \<and>
            row_id (products d' ! i) = row_id (products d ! i) \<and>
            created_at (products d' ! i) = created_at (products d ! i)) \<and>
         (\<forall>r \<in> set (drop (length (products d)) (products d')).
            \<forall>r0 \<in> set (products d). lower (sku r) \<noteq> lower (sku r0))"
proof -
  have e: "evolves rows d d'"
    using assms by (rule evolves_upsert_products_bulk)
  have 1: "length (products d) \<le> length (products d')"
    using e by (simp add: evolves_def)
  have "updated_by rows = (\<lambda>r. case last_with_key (lower (sku r)) rows of
                       None \<Rightarrow> r
                     | Some p \<Rightarrow> r\<lparr>name := name p, description := description p,
                                    price_cents := price_cents p, active := active p\<rparr>)"
    by (rule ext) (simp add: updated_by_def do_update_def split: option.splits)
  then have 2: "take (length (products d)) (products d') =
           map (\<lambda>r. case last_with_key (lower (sku r)) rows of
                       None \<Rightarrow> r
                     | Some p \<Rightarrow> r\<lparr>name := name p, description := description p,
                                    price_cents := price_cents p, active := active p\<rparr>)
               (products d)"
    using e by (simp add: evolves_def)
  have 3: "\<forall>i < length (products d).
            sku (products d' ! i) = sku (products d ! i) \<and>
            row_id (products d' ! i) = row_id (products d ! i) \<and>
            created_at (products d' ! i) = created_at (products d ! i)"
    using evolves_nth[OF e] frame_updated_by by simp
  have 4: "\<forall>r \<in> set (drop (length (products d)) (products d')).
            \<forall>r0 \<in> set (products d). lower (sku r) \<noteq> lower (sku r0)"
    using e by (force simp: evolves_def stored_keys_def)
  from 1 2 3 4 show ?thesis by blast
qed

theorem upsert_existing_frame_witness:
  "upsert_products_bulk (\<lambda>i. 9) 5000 ([\<lparr>sku = ''A1'', name = Some ''Widget2'', description = None, price_cents = Some 999, active = False\<rparr>,
      \<lparr>sku = ''b2'', name = None, description = None, price_cents = None, active = True\<rparr>]) (\<lparr>products = [\<lparr>sku = ''a1'', name = Some ''Widget'', description = Some ''old'',
                    price_cents = Some 1250, active = True, row_id = 1, created_at = 3,
                    updated_at = 3\<rparr>], id_seq = 2\<rparr>) = Inr (2, (\<lparr>products = [\<lparr>sku = ''a1'', name = Some ''Widget2'', description = None,
                    price_cents = Some 999, active = False, row_id = 1, created_at = 3,
                    updated_at = 3\<rparr>,
                   \<lparr>sku = ''b2'', name = None, description = None, price_cents = None,
                    active = True, row_id = 3, created_at = 9, updated_at = 9\<rparr>], id_seq = 4\<rparr>))
   \<and> (length (products (\<lparr>products = [\<lparr>sku = ''a1'', name = Some ''Widget'', description = Some ''old'',
                    price_cents = Some 1250, active = True, row_id = 1, created_at = 3,
                    updated_at = 3\<rparr>], id_seq = 2\<rparr>)) \<le> length (products (\<lparr>products = [\<lparr>sku = ''a1'', name = Some ''Widget2'', description = None,
                    price_cents = Some 999, active = False, row_id = 1, created_at = 3,
                    updated_at = 3\<rparr>,
                   \<lparr>sku = ''b2'', name = None, description = None, price_cents = None,
                    active = True, row_id = 3, created_at = 9, updated_at = 9\<rparr>], id_seq = 4\<rparr>)) \<and>
         take (length (products (\<lparr>products = [\<lparr>sku = ''a1'', name = Some ''Widget'', description = Some ''old'',
                    price_cents = Some 1250, active = True, row_id = 1, created_at = 3,
                    updated_at = 3\<rparr>], id_seq = 2\<rparr>))) (products (\<lparr>products = [\<lparr>sku = ''a1'', name = Some ''Widget2'', description = None,
                    price_cents = Some 999, active = False, row_id = 1, created_at = 3,
                    updated_at = 3\<rparr>,
                   \<lparr>sku = ''b2'', name = None, description = None, price_cents = None,
                    active = True, row_id = 3, created_at = 9, updated_at = 9\<rparr>], id_seq = 4\<rparr>)) =
           map (\<lambda>r. case last_with_key (lower (sku r)) ([\<lparr>sku = ''A1'', name = Some ''Widget2'', description = None, price_cents = Some 999, active = False\<rparr>,
      \<lparr>sku = ''b2'', name = None, description = None, price_cents = None, active = True\<rparr>]) of
                       None \<Rightarrow> r
                     | Some p \<Rightarrow> r\<lparr>name := name p, description := description p,
                                    price_cents := price_cents p, active := active p\<rparr>)
               (products (\<lparr>products = [\<lparr>sku = ''a1'', name = Some ''Widget'', description = Some ''old'',
                    price_cents = Some 1250, active = True, row_id = 1, created_at = 3,
                    updated_at = 3\<rparr>], id_seq = 2\<rparr>)) \<and>
         sku (products (\<lparr>products = [\<lparr>sku = ''a1'', name = Some ''Widget2'', description = None,
                    price_cents = Some 999, active = False, row_id = 1, created_at = 3,
                    updated_at = 3\<rparr>,
                   \<lparr>sku = ''b2'', name = None, description = None, price_cents = None,
                    active = True, row_id = 3, created_at = 9, updated_at = 9\<rparr>], id_seq = 4\<rparr>) ! 0) = sku (products (\<lparr>products = [\<lparr>sku = ''a1'', name = Some ''Widget'', description = Some ''old'',
                    price_cents = Some 1250, active = True, row_id = 1, created_at = 3,
                    updated_at = 3\<rparr>], id_seq = 2\<rparr>) ! 0) \<and>
            row_id (products (\<lparr>products = [\<lparr>sku = ''a1'', name = Some ''Widget2'', description = None,
                    price_cents = Some 999, active = False, row_id = 1, created_at = 3,
                    updated_at = 3\<rparr>,
                   \<lparr>sku = ''b2'', name = None, description = None, price_cents = None,
                    active = True, row_id = 3, created_at = 9, updated_at = 9\<rparr>], id_seq = 4\<rparr>) ! 0) = row_id (products (\<lparr>products = [\<lparr>sku = ''a1'', name = Some ''Widget'', description = Some ''old'',
                    price_cents = Some 1250, active = True, row_id = 1, created_at = 3,
                    updated_at = 3\<rparr>], id_seq = 2\<rparr>) ! 0) \<and>
            created_at (products (\<lparr>products = [\<lparr>sku = ''a1'', name = Some ''Widget2'', description = None,
                    price_cents = Some 999, active = False, row_id = 1, created_at = 3,
                    updated_at = 3\<rparr>,
                   \<lparr>sku = ''b2'', name = None, description = None, price_cents = None,
                    active = True, row_id = 3, created_at = 9, updated_at = 9\<rparr>], id_seq = 4\<rparr>) ! 0) = created_at (products (\<lparr>products = [\<lparr>sku = ''a1'', name = Some ''Widget'', description = Some ''old'',
                    price_cents = Some 1250, active = True, row_id = 1, created_at = 3,
                    updated_at = 3\<rparr>], id_seq = 2\<rparr>) ! 0))"
proof -
  have h: "upsert_products_bulk (\<lambda>i. 9) 5000 ([\<lparr>sku = ''A1'', name = Some ''Widget2'', description = None, price_cents = Some 999, active = False\<rparr>,
      \<lparr>sku = ''b2'', name = None, description = None, price_cents = None, active = True\<rparr>]) (\<lparr>products = [\<lparr>sku = ''a1'', name = Some ''Widget'', description = Some ''old'',
                    price_cents = Some 1250, active = True, row_id = 1, created_at = 3,
                    updated_at = 3\<rparr>], id_seq = 2\<rparr>) = Inr (2, (\<lparr>products = [\<lparr>sku = ''a1'', name = Some ''Widget2'', description = None,
                    price_cents = Some 999, active = False, row_id = 1, created_at = 3,
                    updated_at = 3\<rparr>,
                   \<lparr>sku = ''b2'', name = None, description = None, price_cents = None,
                    active = True, row_id = 3, created_at = 9, updated_at = 9\<rparr>], id_seq = 4\<rparr>))"
    by code_simp
  have pos: "0 < length (products (\<lparr>products = [\<lparr>sku = ''a1'', name = Some ''Widget'', description = Some ''old'',
                    price_cents = Some 1250, active = True, row_id = 1, created_at = 3,
                    updated_at = 3\<rparr>], id_seq = 2\<rparr>))"
    by simp
  from upsert_existing_frame[OF h] pos h show ?thesis
    by blast
qed

text \<open>
  Claim C7. For every batch of records that fit their columns and have pairwise
  distinct case-insensitive skus, any table and any positive chunk size, the upsert
  succeeds and returns the batch size, a second upsert of the same batch on the
  resulting table succeeds, returns the batch size again and leaves the list of stored
  rows as the first upsert left it. The upsert of the empty batch returns zero and leaves
  the database as it is.
\<close>

theorem upsert_twice:
  assumes "0 < chunk_size"
      and "distinct (map (\<lambda>p. lower (sku p)) rows)"
      and "\<forall>p \<in> set rows. check_row p = None"
  shows "(\<exists>d1 d2. upsert_products_bulk utcnow chunk_size rows d = Inr (int (length rows), d1)
               \<and> upsert_products_bulk utcnow' chunk_size rows d1 = Inr (int (length rows), d2)
               \<and> products d2 = products d1)
         \<and> upsert_products_bulk utcnow chunk_size [] d = Inr (0, d)"
proof -
  obtain d1 where 1: "upsert_products_bulk utcnow chunk_size rows d = Inr (int (length rows), d1)"
    using upsert_products_bulk_ok[OF assms] by blast
  obtain d2 where 2: "upsert_products_bulk utcnow' chunk_size rows d1 = Inr (int (length rows), d2)"
    using upsert_products_bulk_ok[OF assms] by blast
  have "products d2 = products d1"
    using evolves_again evolves_upsert_products_bulk[OF 1] evolves_upsert_products_bulk[OF 2] by blast
  with 1 2 show ?thesis using upsert_products_bulk_empty by blast
qed

theorem upsert_twice_witness:
  "(\<exists>d1 d2. upsert_products_bulk (\<lambda>i. 9) 1 ([\<lparr>sku = ''A1'', name = Some ''Widget2'', description = None, price_cents = Some 999, active = False\<rparr>,
      \<lparr>sku = ''b2'', name = None, description = None, price_cents = None, active = True\<rparr>]) (\<lparr>products = [\<lparr>sku = ''a1'', name = Some ''Widget'', description = Some ''old'',
                    price_cents = Some 1250, active = True, row_id = 1, created_at = 3,
                    updated_at = 3\<rparr>], id_seq = 2\<rparr>) = Inr (int (length ([\<lparr>sku = ''A1'', name = Some ''Widget2'', description = None, price_cents = Some 999, active = False\<rparr>,
      \<lparr>sku = ''b2'', name = None, description = None, price_cents = None, active = True\<rparr>])), d1)
               \<and> upsert_products_bulk (\<lambda>i. 11) 1 ([\<lparr>sku = ''A1'', name = Some ''Widget2'', description = None, price_cents = Some 999, active = False\<rparr>,
      \<lparr>sku = ''b2'', name = None, description = None, price_cents = None, active = True\<rparr>]) d1 = Inr (int (length ([\<lparr>sku = ''A1'', name = Some ''Widget2'', description = None, price_cents = Some 999, active = False\<rparr>,
      \<lparr>sku = ''b2'', name = None, description = None, price_cents = None, active = True\<rparr>])), d2)
               \<and> products d2 = products d1)
   \<and> upsert_products_bulk (\<lambda>i. 9) 1 [] (\<lparr>products = [\<lparr>sku = ''a1'', name = Some ''Widget'', description = Some ''old'',
                    price_cents = Some 1250, active = True, row_id = 1, created_at = 3,
                    updated_at = 3\<rparr>], id_seq = 2\<rparr>) = Inr (0, (\<lparr>products = [\<lparr>sku = ''a1'', name = Some ''Widget'', description = Some ''old'',
                    price_cents = Some 1250, active = True, row_id = 1, created_at = 3,
                    updated_at = 3\<rparr>], id_seq = 2\<rparr>))"
proof -
  have k: "distinct (map (\<lambda>p. lower (sku p)) ([\<lparr>sku = ''A1'', name = Some ''Widget2'', description = None, price_cents = Some 999, active = False\<rparr>,
      \<lparr>sku = ''b2'', name = None, description = None, price_cents = None, active = True\<rparr>]))"
    by code_simp
  have c: "\<forall>p \<in> set ([\<lparr>sku = ''A1'', name = Some ''Widget2'', description = None, price_cents = Some 999, active = False\<rparr>,
      \<lparr>sku = ''b2'', name = None, description = None, price_cents = None, active = True\<rparr>]). check_row p = None"
    by (simp add: check_row_def fits_varchar_def fits_int4_def)
  have z: "0 < (1::nat)" by simp
  show ?thesis
    by (rule upsert_twice[OF z k c])
qed


section \<open>Properties of the normalizer and of the import loop\<close>

lemma cleanup_eq: "cleanup p w = (None, w\<lparr>fs := (fs w)(p := None)\<rparr>)"
proof (cases "fs w p")
  case None
  then have "(fs w)(p := None) = fs w" by auto
  then show ?thesis using None by (simp add: cleanup_def os_remove_def)
next
  case (Some c)
  then show ?thesis by (simp add: cleanup_def os_remove_def)
qed


lemma set_task_state_append:
  "set_task_state tid st r = r @ map (\<lambda>(key, v). (task_key tid key, v)) st"
  unfolding set_task_state_def
  by (induction st arbitrary: r) (auto simp: redis_set_def)

lemma chunk_loop_count:
  "chunk_loop utcnow cs i rest acc d = Inr (n, d') \<Longrightarrow> 0 < cs \<Longrightarrow> n = acc + int (length rest)"
proof (induction utcnow cs i rest acc d rule: chunk_loop.induct)
  case (1 utcnow cs i rest acc d)
  show ?case
  proof (cases "rest = []")
    case True
    with "1.prems" show ?thesis by (simp add: chunk_loop.simps)
  next
    case False
    then have c: "\<not> (cs = 0 \<or> rest = [])" using "1.prems"(2) by simp
    from "1.prems"(1) c obtain rc d1 where
      ex: "execute (utcnow i) (take cs rest) d = Inr (rc, d1)" and
      rest: "chunk_loop utcnow cs (i + cs) (drop cs rest)
               (acc + (if rc \<noteq> 0 then rc else int (length (take cs rest)))) d1 = Inr (n, d')"
      by (subst (asm) chunk_loop.simps) (auto simp: Let_def split: sum.splits)
    have rc: "rc = int (length (take cs rest))"
      using ex by (auto simp: execute_def split: sum.splits)
    have "n = acc + (if rc \<noteq> 0 then rc else int (length (take cs rest))) + int (length (drop cs rest))"
      using "1.IH"[OF c refl ex[symmetric, THEN sym] refl rest "1.prems"(2)] .
    then show ?thesis using rc by (simp add: min_def)
  qed
qed

lemma upsert_count:
  "upsert_products_bulk utcnow cs rows d = Inr (n, d') \<Longrightarrow> n = int (length rows)"
  by (auto simp: upsert_products_bulk_def split: if_splits sum.splits dest: chunk_loop_count)

lemma flush_batch_Inr:
  assumes "flush_batch utcnow st = Inr st'"
  shows "processed st' = processed st + int (length (dedupe_batch (batch st)))"
    and "batch st' = batch st" and "invalid_rows st' = invalid_rows st" and "ls_redis st' = ls_redis st"
  using assms by (auto simp: flush_batch_def split: sum.splits dest: upsert_count)









lemma task_key_eq [simp]: "task_key tid a = task_key tid b \<longleftrightarrow> a = b"
  by (simp add: task_key_def)

lemma writes_of_append [simp]: "writes_of tid key (xs @ ys) = writes_of tid key xs @ writes_of tid key ys"
  by (simp add: writes_of_def)

lemma writes_of_Nil [simp]: "writes_of tid key [] = []"
  by (simp add: writes_of_def)

lemma writes_of_Cons [simp]:
  "writes_of tid key ((task_key tid k, v) # ws) = (if k = key then v # writes_of tid key ws else writes_of tid key ws)"
  by (auto simp: writes_of_def)






lemma progress_trace_Nil: "progress_trace tid lo hi []"
  unfolding progress_trace_def
  by (simp add: exI[where x="[]"])

lemma progress_trace_weaken:
  assumes "progress_trace tid lo hi ws" and "lo' \<le> lo" and "hi \<le> hi'"
  shows "progress_trace tid lo' hi' ws"
proof -
  from assms(1) obtain ns where
    t: "writes_of tid ''total'' ws = []" and
    ns: "writes_of tid ''progress'' ws = map str_int ns" "sorted ns" "\<forall>n \<in> set ns. lo \<le> n \<and> n \<le> hi"
    unfolding progress_trace_def by blast
  have "\<forall>n \<in> set ns. lo' \<le> n \<and> n \<le> hi'"
    using ns(3) assms(2,3) by force
  with t ns(1,2) show ?thesis unfolding progress_trace_def by blast
qed

lemma progress_trace_step:
  assumes "progress_trace tid p hi ws" and "p \<le> hi"
  shows "progress_trace tid p hi
           ([(task_key tid ''status'', s), (task_key tid ''progress'', str_int p),
             (task_key tid ''invalid'', i)] @ ws)"
proof -
  from assms(1) obtain ns where
    t: "writes_of tid ''total'' ws = []" and
    ns: "writes_of tid ''progress'' ws = map str_int ns" "sorted ns" "\<forall>n \<in> set ns. p \<le> n \<and> n \<le> hi"
    unfolding progress_trace_def by blast
  let ?ws = "[(task_key tid ''status'', s), (task_key tid ''progress'', str_int p),
             (task_key tid ''invalid'', i)] @ ws"
  have 1: "writes_of tid ''total'' ?ws = []" using t by simp
  have 2: "writes_of tid ''progress'' ?ws = map str_int (p # ns)" using ns(1) by simp
  have 3: "sorted (p # ns)" using ns(2,3) by simp
  have 4: "\<forall>n \<in> set (p # ns). p \<le> n \<and> n \<le> hi" using ns(3) assms(2) by simp
  from 1 2 3 4 show ?thesis unfolding progress_trace_def by blast
qed

lemma import_rows_trace:
  "import_rows tid utcnow bs tot rows st = (r, st') \<Longrightarrow>
   processed st \<le> processed st' \<and>
   (\<exists>ws. ls_redis st' = ls_redis st @ ws \<and> progress_trace tid (processed st) (processed st') ws)"
proof (induction rows arbitrary: st)
  case Nil
  then have "st' = st" by simp
  then show ?case using progress_trace_Nil by simp
next
  case (Cons row rows)
  show ?case
  proof (cases "normalize_row row")
    case None
    with Cons.prems have "import_rows tid utcnow bs tot rows (st\<lparr>invalid_rows := invalid_rows st + 1\<rparr>) = (r, st')"
      by simp
    from Cons.IH[OF this] show ?thesis by simp
  next
    case (Some p)
    let ?st1 = "st\<lparr>batch := batch st @ [p]\<rparr>"
    show ?thesis
    proof (cases "int (length (batch ?st1)) \<ge> bs")
      case True
      show ?thesis
      proof (cases "flush_batch utcnow ?st1")
        case (Inl e)
        with Cons.prems Some True have "st' = ?st1" by (simp add: Let_def)
        then show ?thesis using progress_trace_Nil by simp
      next
        case (Inr st2)
        let ?ws = "[(task_key tid ''status'', ''importing ('' @ str_int (processed st2) @ ''/''
                                               @ str_int tot @ '')''),
                    (task_key tid ''progress'', str_int (processed st2)),
                    (task_key tid ''invalid'', str_int (invalid_rows st2))]"
        let ?st3 = "st2\<lparr>batch := [], ls_redis := ls_redis st2 @ ?ws\<rparr>"
        from Cons.prems Some True Inr have run: "import_rows tid utcnow bs tot rows ?st3 = (r, st')"
          by (simp add: Let_def set_task_state_append)
        have p2: "processed st \<le> processed st2" and r2: "ls_redis st2 = ls_redis st"
          using flush_batch_Inr[OF Inr] by simp_all
        from Cons.IH[OF run] obtain ws where
          le: "processed st2 \<le> processed st'" and
          ws: "ls_redis st' = (ls_redis st2 @ ?ws) @ ws" and
          tr: "progress_trace tid (processed st2) (processed st') ws"
          by auto
        have a: "ls_redis st' = ls_redis st @ (?ws @ ws)" using ws r2 by simp
        have "progress_trace tid (processed st2) (processed st') (?ws @ ws)"
          using progress_trace_step[OF tr le] .
        then have b: "progress_trace tid (processed st) (processed st') (?ws @ ws)"
          using p2 by (rule progress_trace_weaken) simp
        have c: "processed st \<le> processed st'" using p2 le by simp
        from a b c show ?thesis by blast
      qed
    next
      case False
      with Cons.prems Some have "import_rows tid utcnow bs tot rows ?st1 = (r, st')"
        by (simp add: Let_def)
      from Cons.IH[OF this] show ?thesis by simp
    qed
  qed
qed

lemma stream_rows_trace:
  assumes "stream_rows tid utcnow bs tot rows err st0 = (r, st)"
  shows "processed st0 \<le> processed st \<and>
         (\<exists>ws. ls_redis st = ls_redis st0 @ ws \<and> progress_trace tid (processed st0) (processed st) ws)"
proof -
  obtain r1 st1 where ir: "import_rows tid utcnow bs tot rows st0 = (r1, st1)"
    by (cases "import_rows tid utcnow bs tot rows st0")
  from import_rows_trace[OF ir] obtain ws where
    le: "processed st0 \<le> processed st1" and
    ws: "ls_redis st1 = ls_redis st0 @ ws" and
    tr: "progress_trace tid (processed st0) (processed st1) ws"
    by blast
  have "ls_redis st = ls_redis st1 \<and> processed st1 \<le> processed st"
    using assms ir flush_batch_Inr(1,4)
    by (auto simp: stream_rows_def split: if_splits option.splits sum.splits)
  then have a: "ls_redis st = ls_redis st0 @ ws" and b: "processed st1 \<le> processed st"
    using ws by simp_all
  have "progress_trace tid (processed st0) (processed st) ws"
    using tr _ b by (rule progress_trace_weaken) simp
  with a le b show ?thesis by auto
qed


lemma read_header_no_sku:
  assumes "read_records parse_reset (file_lines content) = (recs, err)" and "\<not> has_sku_header content"
  shows "read_header recs err = Inl (header_error content)"
  using assms
  by (auto simp: read_header_def has_sku_header_def csv_header_def header_error_def Let_def
           split: list.splits option.splits)

lemma read_header_Inr:
  assumes "read_records parse_reset (file_lines content) = (recs, err)"
      and "read_header recs err = Inr (fieldnames, data)"
  shows "csv_rows content = dict_rows fieldnames data" and "has_sku_header content"
  using assms
  by (auto simp: read_header_def has_sku_header_def csv_header_def csv_rows_def Let_def
           split: list.splits option.splits if_splits)

lemma try_body_no_file:
  "fs w path = None \<Longrightarrow> try_body tid path utcnow bs w = (Some (FileNotFoundError path), w)"
  by (simp add: try_body_def)

lemma try_body_no_sku:
  assumes "fs w path = Some content" and "\<not> has_sku_header content"
  shows "try_body tid path utcnow bs w =
           (Some (header_error content),
            w\<lparr>redis := redis w @ [(task_key tid ''status'', ''parsing''),
                                  (task_key tid ''total'', str_int (count_rows content))]\<rparr>)"
proof -
  obtain recs err where rr: "read_records parse_reset (file_lines content) = (recs, err)"
    by (cases "read_records parse_reset (file_lines content)")
  show ?thesis
    using assms(1) read_header_no_sku[OF rr assms(2)]
    by (simp add: try_body_def rr Let_def set_task_state_append)
qed

lemma try_body_with_sku:
  assumes "fs w path = Some content" and "has_sku_header content"
  shows "\<exists>r st. stream_rows tid utcnow bs (count_rows content) (csv_rows content)
                  (snd (read_records parse_reset (file_lines content)))
                  \<lparr>batch = [], processed = 0, invalid_rows = 0,
                   ls_redis = redis w @ [(task_key tid ''status'', ''parsing''),
                                        (task_key tid ''total'', str_int (count_rows content))],
                   ls_db = db w\<rparr> = (r, st)
          \<and> try_body tid path utcnow bs w =
              (r, w\<lparr>redis := (case r of
                                 Some e \<Rightarrow> ls_redis st
                               | None \<Rightarrow> ls_redis st @
                                   [(task_key tid ''status'', ''complete''),
                                    (task_key tid ''progress'', str_int (processed st)),
                                    (task_key tid ''total'', str_int (count_rows content)),
                                    (task_key tid ''invalid'', str_int (invalid_rows st))]),
                     db := ls_db st\<rparr>)"
proof -
  obtain recs err where rr: "read_records parse_reset (file_lines content) = (recs, err)"
    by (cases "read_records parse_reset (file_lines content)")
  from assms(2) rr obtain fieldnames data where
    recs: "recs = fieldnames # data" and sk: "''sku'' \<in> set (map (\<lambda>h. lower (strip h)) fieldnames)"
    by (auto simp: has_sku_header_def csv_header_def split: list.splits)
  have rh: "read_header recs err = Inr (fieldnames, data)"
    using recs sk by (auto simp: read_header_def Let_def)
  have cr: "csv_rows content = dict_rows fieldnames data"
    using read_header_Inr(1)[OF rr rh] .
  obtain r st where sr: "stream_rows tid utcnow bs (count_rows content) (dict_rows fieldnames data) err
                  \<lparr>batch = [], processed = 0, invalid_rows = 0,
                   ls_redis = redis w @ [(task_key tid ''status'', ''parsing''),
                                        (task_key tid ''total'', str_int (count_rows content))],
                   ls_db = db w\<rparr> = (r, st)"
    by (cases "stream_rows tid utcnow bs (count_rows content) (dict_rows fieldnames data) err
                  \<lparr>batch = [], processed = 0, invalid_rows = 0,
                   ls_redis = redis w @ [(task_key tid ''status'', ''parsing''),
                                        (task_key tid ''total'', str_int (count_rows content))],
                   ls_db = db w\<rparr>")
  have "try_body tid path utcnow bs w =
              (r, w\<lparr>redis := (case r of
                                 Some e \<Rightarrow> ls_redis st
                               | None \<Rightarrow> ls_redis st @
                                   [(task_key tid ''status'', ''complete''),
                                    (task_key tid ''progress'', str_int (processed st)),
                                    (task_key tid ''total'', str_int (count_rows content)),
                                    (task_key tid ''invalid'', str_int (invalid_rows st))]),
                     db := ls_db st\<rparr>)"
    using assms(1) rh sr
    by (simp add: try_body_def rr Let_def set_task_state_append split: option.splits)
  then show ?thesis using sr cr rr by auto
qed

lemma try_body_fs: "fs (snd (try_body tid path utcnow bs w)) = fs w"
proof (cases "fs w path")
  case None
  then show ?thesis by (simp add: try_body_no_file)
next
  case (Some content)
  show ?thesis
  proof (cases "has_sku_header content")
    case True
    from try_body_with_sku[OF Some True, of tid utcnow bs] show ?thesis by auto
  next
    case False
    from try_body_no_sku[OF Some False, of tid utcnow bs] show ?thesis by simp
  qed
qed

lemma redis_get_snoc [simp]:
  "redis_get (r @ [(k, v)]) k' = (if k' = k then Some v else redis_get r k')"
  by (simp add: redis_get_def)

lemma job_bad_env:
  "getenv_batch_size env = Inl e \<Longrightarrow>
   import_products_task tid path env utcnow w = (Raised e, w\<lparr>redis := redis w @ init_writes tid\<rparr>)"
  by (simp add: import_products_task_def set_task_state_append init_writes_def Let_def)

lemma job_ok_env:
  assumes "getenv_batch_size env = Inr bs"
      and "try_body tid path utcnow bs (w\<lparr>redis := redis w @ init_writes tid\<rparr>) = (raised, w1)"
  shows "import_products_task tid path env utcnow w =
           (case raised of
              None \<Rightarrow> (Returned, w1\<lparr>fs := (fs w1)(path := None)\<rparr>)
            | Some exc \<Rightarrow> (Raised exc, w1\<lparr>redis := redis w1 @ error_writes tid exc,
                                            fs := (fs w1)(path := None)\<rparr>))"
  using assms
  by (simp add: import_products_task_def set_task_state_append init_writes_def error_writes_def
                cleanup_eq Let_def split: option.splits)

lemma job_raised:
  assumes "getenv_batch_size env = Inr bs"
      and "import_products_task tid path env utcnow w = (Raised e, w')"
  shows "\<exists>r. redis w' = r @ error_writes tid e"
proof -
  obtain raised w1 where tb: "try_body tid path utcnow bs (w\<lparr>redis := redis w @ init_writes tid\<rparr>) = (raised, w1)"
    by (cases "try_body tid path utcnow bs (w\<lparr>redis := redis w @ init_writes tid\<rparr>)")
  from job_ok_env[OF assms(1) tb] assms(2) show ?thesis
    by (auto split: option.splits)
qed

lemma job_fs:
  assumes "getenv_batch_size env = Inr bs"
      and "import_products_task tid path env utcnow w = (out, w')"
  shows "fs w' = (fs w)(path := None)"
proof -
  obtain raised w1 where tb: "try_body tid path utcnow bs (w\<lparr>redis := redis w @ init_writes tid\<rparr>) = (raised, w1)"
    by (cases "try_body tid path utcnow bs (w\<lparr>redis := redis w @ init_writes tid\<rparr>)")
  have "fs w1 = fs w"
    using try_body_fs[of tid path utcnow bs "w\<lparr>redis := redis w @ init_writes tid\<rparr>"] tb by simp
  with job_ok_env[OF assms(1) tb] assms(2) show ?thesis
    by (auto split: option.splits)
qed


lemma less_10_cases:
  "(d::nat) < 10 \<Longrightarrow> d = 0 \<or> d = 1 \<or> d = 2 \<or> d = 3 \<or> d = 4 \<or> d = 5 \<or> d = 6 \<or> d = 7 \<or> d = 8 \<or> d = 9"
  by arith

lemma digit_char_is_digit: "d < 10 \<Longrightarrow> is_digit (''0123456789'' ! d)"
  by (drule less_10_cases) (auto simp: is_digit_def)

lemma digit_val_digit_char: "d < 10 \<Longrightarrow> digit_val (''0123456789'' ! d) = d"
  by (drule less_10_cases) (auto simp: digit_val_def)

lemma is_digit_not_space: "is_digit c \<Longrightarrow> \<not> is_space c"
  by (auto simp: is_digit_def is_space_def)

lemma is_digit_not_sign: "is_digit c \<Longrightarrow> c \<noteq> CHR ''-'' \<and> c \<noteq> CHR ''+'' \<and> c \<noteq> CHR ''_''"
  by (auto simp: is_digit_def)

lemma digits_of_digits: "digits_of m \<noteq> [] \<and> list_all is_digit (digits_of m)"
proof (induction m rule: digits_of.induct)
  case (1 n)
  show ?case
  proof (cases "n < 10")
    case True
    then show ?thesis by (subst (1 2) digits_of.simps) (simp add: digit_char_is_digit)
  next
    case False
    then show ?thesis
      using "1.IH" by (subst (1 2) digits_of.simps) (simp add: digit_char_is_digit)
  qed
qed

lemma digits_val_snoc: "digits_val (xs @ [c]) = 10 * digits_val xs + digit_val c"
  by (simp add: digits_val_def)

lemma digits_val_digits_of: "digits_val (digits_of m) = m"
proof (induction m rule: digits_of.induct)
  case (1 n)
  show ?case
  proof (cases "n < 10")
    case True
    then show ?thesis
      by (subst digits_of.simps) (simp add: digits_val_def digit_val_digit_char)
  next
    case False
    then show ?thesis
      using "1.IH" by (subst digits_of.simps) (simp add: digits_val_snoc digit_val_digit_char)
  qed
qed

lemma strip_no_space:
  assumes "s \<noteq> []" and "\<not> is_space (hd s)" and "\<not> is_space (last s)"
  shows "strip s = s"
proof -
  have 1: "dropWhile is_space s = s"
    using assms(1,2) by (cases s) simp_all
  have "rev s \<noteq> []" "\<not> is_space (hd (rev s))"
    using assms(1,3) by (simp_all add: hd_rev)
  then have 2: "dropWhile is_space (rev s) = rev s"
    by (cases "rev s") simp_all
  show ?thesis by (simp add: strip_def 1 2)
qed

lemma py_int_digits:
  assumes "s \<noteq> []" and "list_all is_digit s"
  shows "py_int s = Some (int (digits_val s))"
proof -
  have all: "\<forall>c \<in> set s. is_digit c" using assms(2) by (simp add: list_all_iff)
  have h: "is_digit (hd s)" and l: "is_digit (last s)"
    using assms(1) all by simp_all
  have st: "strip s = s"
    using assms(1) h l by (intro strip_no_space) (simp_all add: is_digit_not_space)
  obtain c r where s: "s = c # r" using assms(1) by (cases s) auto
  have c: "c \<noteq> CHR ''-''" "c \<noteq> CHR ''+''"
    using h s is_digit_not_sign by auto
  have rm: "remove_char CHR ''_'' s = s"
    unfolding remove_char_def using all is_digit_not_sign by (intro filter_True) auto
  have pairs: "\<not> list_ex (\<lambda>(a, b). a = CHR ''_'' \<and> b = CHR ''_'') (zip s (tl s))"
  proof
    assume "list_ex (\<lambda>(a, b). a = CHR ''_'' \<and> b = CHR ''_'') (zip s (tl s))"
    then obtain a b where "(a, b) \<in> set (zip s (tl s))" "a = CHR ''_''"
      by (auto simp: list_ex_iff)
    then have "CHR ''_'' \<in> set s" by (auto dest: set_zip_leftD)
    then show False using all is_digit_not_sign by blast
  qed
  have la: "list_all (\<lambda>c. is_digit c \<or> c = CHR ''_'') s"
    using all by (simp add: list_all_iff)
  show ?thesis
    unfolding py_int_def st
    using assms(1) c h l pairs la rm
    by (simp add: s Let_def)
qed

lemma py_int_str_int: "0 \<le> n \<Longrightarrow> py_int (str_int n) = Some n"
  using py_int_digits[of "digits_of (nat n)"] digits_of_digits[of "nat n"]
  by (simp add: str_int_def digits_val_digits_of)

lemma str_int_not_empty: "0 \<le> n \<Longrightarrow> str_int n \<noteq> []"
  using digits_of_digits[of "nat n"] by (simp add: str_int_def)

lemma int_value_str_int:
  "redis_get r (task_key tid key) = Some (str_int n) \<Longrightarrow> 0 \<le> n \<Longrightarrow> int_value r tid key = n"
  by (simp add: int_value_def py_int_str_int str_int_not_empty)

lemma int_value_absent:
  "redis_get r (task_key tid key) = None \<Longrightarrow> int_value r tid key = 0"
  by (simp add: int_value_def)

lemma redis_get_writes:
  "redis_get (r0 @ xs) (task_key tid key) =
     (if writes_of tid key xs = [] then redis_get r0 (task_key tid key)
      else Some (last (writes_of tid key xs)))"
proof (induction xs rule: rev_induct)
  case Nil
  then show ?case by simp
next
  case (snoc x xs)
  obtain k v where x: "x = (k, v)" by (cases x)
  have "redis_get ((r0 @ xs) @ [(k, v)]) (task_key tid key) =
          (if task_key tid key = k then Some v else redis_get (r0 @ xs) (task_key tid key))"
    by (rule redis_get_snoc)
  then show ?case using snoc.IH
    by (auto simp: x writes_of_def)
qed


section \<open>Evaluation of the example inputs\<close>

lemmas csv_eval = file_lines_def LF_def CR_def parse_reset_def parse_process_char_def start_field_def
  parse_save_field_def parse_add_char_def is_eol_def after_eol_def field_limit_def

lemmas text_eval = lower_def lower_char_def strip_def is_space_def

lemmas price_eval = parse_price_to_cents_def remove_char_def Decimal_def parse_exponent_def
  digits_val_def digit_val_def is_digit_def times_100_def fix_decimal_def int_of_decimal_def
  round_half_even_def ndigits.simps prec_def Emax_def Emin_def Etiny_def Etop_def strip_def is_space_def

lemmas row_eval = normalize_row_def normalized_dict_def dict_get_def or_empty_def or_none_def py_or_def

lemma headerless_records:
  "read_records parse_reset (file_lines headerless_csv) = ([[''name'', ''price''], [''Widget'', ''5'']], None)"
  by (simp add: headerless_csv_def csv_eval)

lemma headerless_no_sku: "\<not> has_sku_header headerless_csv"
  by (simp add: has_sku_header_def csv_header_def headerless_records text_eval)

lemma headerless_error: "header_error headerless_csv = missing_sku"
  by (simp add: header_error_def headerless_records)

lemma scenario_records:
  "read_records parse_reset (file_lines scenario_csv) =
     ([[''sku'', ''name'', ''price''], [''A1'', ''Widget'', ''$12.50''], ['''', ''NoKey'', ''5''],
       [''A1'', ''Widget2'', ''9.99'']], None)"
  by (simp add: scenario_csv_def csv_eval)

lemma scenario_has_sku: "has_sku_header scenario_csv"
  by (simp add: has_sku_header_def csv_header_def scenario_records text_eval)

lemma scenario_count: "count_rows scenario_csv = 3"
  by (simp add: count_rows_def scenario_csv_def file_lines_def LF_def CR_def)

lemma scenario_rows:
  "csv_rows scenario_csv =
     [[(''sku'', Some ''A1''), (''name'', Some ''Widget''), (''price'', Some ''$12.50'')],
      [(''sku'', Some ''''), (''name'', Some ''NoKey''), (''price'', Some ''5'')],
      [(''sku'', Some ''A1''), (''name'', Some ''Widget2''), (''price'', Some ''9.99'')]]"
  by (simp add: csv_rows_def scenario_records dict_rows_def make_dict_def)

lemma price_12_50: "parse_price_to_cents (Some ''$12.50'') = Some 1250"
  by (simp add: price_eval)

lemma price_9_99: "parse_price_to_cents (Some ''9.99'') = Some 999"
  by (simp add: price_eval)

lemma price_1250: "parse_price_to_cents (Some ''1250'') = Some 125000"
  by (simp add: price_eval)

lemma price_0: "parse_price_to_cents (Some ''0'') = Some 0"
  by (simp add: price_eval)

lemma price_5: "parse_price_to_cents (Some ''5'') = Some 500"
  by (simp add: price_eval)

lemma price_None: "parse_price_to_cents None = None"
  by (simp add: parse_price_to_cents_def)

lemma scenario_row1:
  "normalize_row [(''sku'', Some ''A1''), (''name'', Some ''Widget''), (''price'', Some ''$12.50'')] =
     Some \<lparr>sku = ''A1'', name = Some ''Widget'', description = None, price_cents = Some 1250, active = True\<rparr>"
  by (simp add: row_eval text_eval price_None price_12_50)

lemma scenario_row2:
  "normalize_row [(''sku'', Some ''''), (''name'', Some ''NoKey''), (''price'', Some ''5'')] = None"
  by (simp add: row_eval text_eval)

lemma scenario_row3:
  "normalize_row [(''sku'', Some ''A1''), (''name'', Some ''Widget2''), (''price'', Some ''9.99'')] =
     Some \<lparr>sku = ''A1'', name = Some ''Widget2'', description = None, price_cents = Some 999, active = True\<rparr>"
  by (simp add: row_eval text_eval price_None price_9_99)

lemma scenario_dedupe:
  "dedupe_batch
     [\<lparr>sku = ''A1'', name = Some ''Widget'', description = None, price_cents = Some 1250, active = True\<rparr>,
      \<lparr>sku = ''A1'', name = Some ''Widget2'', description = None, price_cents = Some 999, active = True\<rparr>] =
     [\<lparr>sku = ''A1'', name = Some ''Widget2'', description = None, price_cents = Some 999, active = True\<rparr>]"
  by (simp add: dedupe_batch_def dedupe_dict_def text_eval)

lemmas store_eval = upsert_products_bulk_def chunk_loop.simps execute_def check_row_def fits_varchar_def
  fits_int4_def upsert_row_def conflicts_def do_update_def new_row_def default_chunk_size_def
  product.defs stored_product.defs Let_def

lemma scenario_upsert:
  "upsert_products_bulk now default_chunk_size
     [\<lparr>sku = ''A1'', name = Some ''Widget2'', description = None, price_cents = Some 999, active = True\<rparr>]
     \<lparr>products = [], id_seq = i\<rparr> =
   Inr (1, \<lparr>products = [\<lparr>sku = ''A1'', name = Some ''Widget2'', description = None,
                            price_cents = Some 999, active = True, row_id = i,
                            created_at = now 0, updated_at = now 0\<rparr>], id_seq = Suc i\<rparr>)"
  by (simp add: store_eval text_eval)

lemma scenario_loop:
  "import_rows tid utcnow 5000 3 (csv_rows scenario_csv)
     \<lparr>batch = [], processed = 0, invalid_rows = 0, ls_redis = r, ls_db = d\<rparr> =
   (None, \<lparr>batch = [\<lparr>sku = ''A1'', name = Some ''Widget'', description = None, price_cents = Some 1250, active = True\<rparr>,
                    \<lparr>sku = ''A1'', name = Some ''Widget2'', description = None, price_cents = Some 999, active = True\<rparr>],
           processed = 0, invalid_rows = 1, ls_redis = r, ls_db = d\<rparr>)"
  by (simp add: scenario_rows scenario_row1 scenario_row2 scenario_row3)

lemma scenario_stream:
  "stream_rows tid utcnow 5000 3 (csv_rows scenario_csv) None
     \<lparr>batch = [], processed = 0, invalid_rows = 0, ls_redis = r, ls_db = \<lparr>products = [], id_seq = i\<rparr>\<rparr> =
   (None, \<lparr>batch = [\<lparr>sku = ''A1'', name = Some ''Widget'', description = None, price_cents = Some 1250, active = True\<rparr>,
                    \<lparr>sku = ''A1'', name = Some ''Widget2'', description = None, price_cents = Some 999, active = True\<rparr>],
           processed = 1, invalid_rows = 1, ls_redis = r,
           ls_db = \<lparr>products = [\<lparr>sku = ''A1'', name = Some ''Widget2'', description = None,
                            price_cents = Some 999, active = True, row_id = i,
                            created_at = utcnow 0 0, updated_at = utcnow 0 0\<rparr>], id_seq = Suc i\<rparr>\<rparr>)"
  by (simp add: stream_rows_def scenario_loop flush_batch_def scenario_dedupe scenario_upsert)

lemma default_batch_size: "getenv_batch_size None = Inr 5000"
  by (simp add: getenv_batch_size_def py_int_def text_eval is_digit_def remove_char_def digits_val_def digit_val_def)

lemma scenario_job:
  "import_products_task tid upload_path None utcnow (start_world scenario_csv) =
     (Returned,
      \<lparr>fs = Map.empty,
       redis = [(task_key tid ''status'', ''initializing''), (task_key tid ''progress'', ''0''),
                (task_key tid ''total'', ''0''), (task_key tid ''invalid'', ''0''),
                (task_key tid ''status'', ''parsing''), (task_key tid ''total'', ''3''),
                (task_key tid ''status'', ''complete''), (task_key tid ''progress'', ''1''),
                (task_key tid ''total'', ''3''), (task_key tid ''invalid'', ''1'')],
       db = \<lparr>products = [\<lparr>sku = ''A1'', name = Some ''Widget2'', description = None,
                            price_cents = Some 999, active = True, row_id = 1,
                            created_at = utcnow 0 0, updated_at = utcnow 0 0\<rparr>], id_seq = 2\<rparr>\<rparr>)"
proof -
  let ?w0 = "(start_world scenario_csv)\<lparr>redis := redis (start_world scenario_csv) @ init_writes tid\<rparr>"
  have f: "fs ?w0 upload_path = Some scenario_csv"
    by (simp add: start_world_def)
  from try_body_with_sku[OF f scenario_has_sku, of tid utcnow 5000]
  have tb: "try_body tid upload_path utcnow 5000 ?w0 =
          (None, ?w0\<lparr>redis := (redis ?w0 @ [(task_key tid ''status'', ''parsing''),
                                        (task_key tid ''total'', str_int 3)]) @
                                   [(task_key tid ''status'', ''complete''),
                                    (task_key tid ''progress'', str_int 1),
                                    (task_key tid ''total'', str_int 3),
                                    (task_key tid ''invalid'', str_int 1)],
                     db := \<lparr>products = [\<lparr>sku = ''A1'', name = Some ''Widget2'', description = None,
                            price_cents = Some 999, active = True, row_id = 1,
                            created_at = utcnow 0 0, updated_at = utcnow 0 0\<rparr>], id_seq = 2\<rparr>\<rparr>)"
    by (simp add: scenario_count scenario_records scenario_stream start_world_def)
  have s: "str_int 0 = ''0''" "str_int 1 = ''1''" "str_int 3 = ''3''"
    by (simp_all add: str_int_def digits_of.simps)
  show ?thesis
    using job_ok_env[OF default_batch_size tb]
    by (simp add: start_world_def init_writes_def s)
qed















lemma count_rows_nonneg: "0 \<le> count_rows content"
  by (simp add: count_rows_def)

lemma job_trace_Nil: "job_trace tid []"
proof -
  have "writes_of tid ''total'' [] = replicate 0 (str_int 0)" by simp
  moreover have "writes_of tid ''progress'' [] = map str_int []" by simp
  ultimately show ?thesis unfolding job_trace_def by (metis order_refl sorted_wrt.simps(1) empty_iff list.set(1))
qed

lemma job_trace_parsing:
  assumes "0 \<le> n"
  shows "job_trace tid [(task_key tid ''status'', s), (task_key tid ''total'', str_int n)]"
proof -
  have "writes_of tid ''total'' [(task_key tid ''status'', s), (task_key tid ''total'', str_int n)]
          = replicate 1 (str_int n)" by simp
  moreover have "writes_of tid ''progress'' [(task_key tid ''status'', s), (task_key tid ''total'', str_int n)]
          = map str_int []" by simp
  ultimately show ?thesis unfolding job_trace_def using assms
    by (metis sorted_wrt.simps(1) empty_iff list.set(1))
qed

lemma job_trace_importing:
  assumes "0 \<le> n" and "progress_trace tid 0 p ws"
  shows "job_trace tid ([(task_key tid ''status'', s), (task_key tid ''total'', str_int n)] @ ws)"
proof -
  from assms(2) obtain ns where
    t: "writes_of tid ''total'' ws = []" and
    ns: "writes_of tid ''progress'' ws = map str_int ns" "sorted ns" "\<forall>m \<in> set ns. 0 \<le> m \<and> m \<le> p"
    unfolding progress_trace_def by blast
  let ?ws = "[(task_key tid ''status'', s), (task_key tid ''total'', str_int n)] @ ws"
  have 1: "writes_of tid ''total'' ?ws = replicate 1 (str_int n)" using t by simp
  have 2: "writes_of tid ''progress'' ?ws = map str_int ns" using ns(1) by simp
  have 3: "\<forall>m \<in> set ns. 0 \<le> m" using ns(3) by simp
  from 1 2 3 ns(2) assms(1) show ?thesis unfolding job_trace_def by blast
qed

lemma job_trace_complete:
  assumes "0 \<le> n" and "progress_trace tid 0 p ws" and "0 \<le> p"
  shows "job_trace tid ([(task_key tid ''status'', s), (task_key tid ''total'', str_int n)] @ ws @
                        [(task_key tid ''status'', s'), (task_key tid ''progress'', str_int p),
                         (task_key tid ''total'', str_int n), (task_key tid ''invalid'', i)])"
proof -
  from assms(2) obtain ns where
    t: "writes_of tid ''total'' ws = []" and
    ns: "writes_of tid ''progress'' ws = map str_int ns" "sorted ns" "\<forall>m \<in> set ns. 0 \<le> m \<and> m \<le> p"
    unfolding progress_trace_def by blast
  let ?ws = "[(task_key tid ''status'', s), (task_key tid ''total'', str_int n)] @ ws @
                        [(task_key tid ''status'', s'), (task_key tid ''progress'', str_int p),
                         (task_key tid ''total'', str_int n), (task_key tid ''invalid'', i)]"
  have 1: "writes_of tid ''total'' ?ws = replicate 2 (str_int n)"
    using t by (simp add: numeral_2_eq_2)
  have 2: "writes_of tid ''progress'' ?ws = map str_int (ns @ [p])" using ns(1) by simp
  have 3: "\<forall>m \<in> set (ns @ [p]). 0 \<le> m" using ns(3) assms(3) by simp
  have 4: "sorted (ns @ [p])" using ns(2,3) by (simp add: sorted_append)
  from 1 2 3 4 assms(1) show ?thesis unfolding job_trace_def by blast
qed

lemma try_body_trace:
  assumes "try_body tid path utcnow bs w = (r, w1)"
  shows "\<exists>ws. redis w1 = redis w @ ws \<and> job_trace tid ws"
proof (cases "fs w path")
  case None
  with assms have "w1 = w" by (simp add: try_body_no_file)
  then show ?thesis using job_trace_Nil by simp
next
  case (Some content)
  show ?thesis
  proof (cases "has_sku_header content")
    case False
    from try_body_no_sku[OF Some False, of tid utcnow bs] assms
    have "redis w1 = redis w @ [(task_key tid ''status'', ''parsing''),
                                (task_key tid ''total'', str_int (count_rows content))]"
      by auto
    then show ?thesis using job_trace_parsing[OF count_rows_nonneg] by blast
  next
    case True
    let ?p = "[(task_key tid ''status'', ''parsing''),
               (task_key tid ''total'', str_int (count_rows content))]"
    from try_body_with_sku[OF Some True, of tid utcnow bs] assms obtain st where
      sr: "stream_rows tid utcnow bs (count_rows content) (csv_rows content)
                  (snd (read_records parse_reset (file_lines content)))
                  \<lparr>batch = [], processed = 0, invalid_rows = 0,
                   ls_redis = redis w @ ?p, ls_db = db w\<rparr> = (r, st)" and
      w1: "redis w1 = (case r of
                                 Some e \<Rightarrow> ls_redis st
                               | None \<Rightarrow> ls_redis st @
                                   [(task_key tid ''status'', ''complete''),
                                    (task_key tid ''progress'', str_int (processed st)),
                                    (task_key tid ''total'', str_int (count_rows content)),
                                    (task_key tid ''invalid'', str_int (invalid_rows st))])"
      by auto
    from stream_rows_trace[OF sr] obtain ws where
      p: "0 \<le> processed st" and
      ws: "ls_redis st = (redis w @ ?p) @ ws" and
      tr: "progress_trace tid 0 (processed st) ws"
      by auto
    show ?thesis
    proof (cases r)
      case None
      then have "redis w1 = redis w @ (?p @ ws @
                                   [(task_key tid ''status'', ''complete''),
                                    (task_key tid ''progress'', str_int (processed st)),
                                    (task_key tid ''total'', str_int (count_rows content)),
                                    (task_key tid ''invalid'', str_int (invalid_rows st))])"
        using w1 ws by simp
      then show ?thesis using job_trace_complete[OF count_rows_nonneg tr p] by blast
    next
      case (Some e)
      then have "redis w1 = redis w @ (?p @ ws)" using w1 ws by simp
      then show ?thesis using job_trace_importing[OF count_rows_nonneg tr] by blast
    qed
  qed
qed

lemma job_published:
  assumes "import_products_task tid path env utcnow w = (out, w')"
  shows "\<exists>ws. redis w' = redis w @ ws
           \<and> (\<exists>k n. 0 \<le> n \<and> writes_of tid ''total'' ws = map str_int (0 # replicate k n))
           \<and> (\<exists>ns. writes_of tid ''progress'' ws = map str_int ns \<and> sorted ns \<and> (\<forall>m \<in> set ns. 0 \<le> m))"
proof (cases "getenv_batch_size env")
  case (Inl e)
  from job_bad_env[OF Inl, of tid path utcnow w] assms
  have r: "redis w' = redis w @ init_writes tid" by auto
  have 1: "writes_of tid ''total'' (init_writes tid) = map str_int (0 # replicate 0 0)"
    by (simp add: init_writes_def)
  have 2: "writes_of tid ''progress'' (init_writes tid) = map str_int [0]"
    by (simp add: init_writes_def)
  have 3: "sorted [0::int]" "\<forall>m \<in> set [0::int]. 0 \<le> m" by simp_all
  from r 1 2 3 show ?thesis by (metis order_refl)
next
  case (Inr bs)
  obtain raised w1 where tb: "try_body tid path utcnow bs (w\<lparr>redis := redis w @ init_writes tid\<rparr>) = (raised, w1)"
    by (cases "try_body tid path utcnow bs (w\<lparr>redis := redis w @ init_writes tid\<rparr>)")
  from try_body_trace[OF tb] obtain ws where
    ws: "redis w1 = (redis w @ init_writes tid) @ ws" and jt: "job_trace tid ws"
    by auto
  from jt obtain k n ns where
    n: "0 \<le> n" "writes_of tid ''total'' ws = replicate k (str_int n)" and
    ns: "writes_of tid ''progress'' ws = map str_int ns" "sorted ns" "\<forall>m \<in> set ns. 0 \<le> m"
    unfolding job_trace_def by blast
  let ?e = "case raised of None \<Rightarrow> [] | Some exc \<Rightarrow> error_writes tid exc"
  have r: "redis w' = redis w @ (init_writes tid @ ws @ ?e)"
    using job_ok_env[OF Inr tb] assms ws by (auto split: option.splits)
  have e: "writes_of tid ''total'' ?e = []" "writes_of tid ''progress'' ?e = []"
    by (simp_all add: error_writes_def split: option.splits)
  have 1: "writes_of tid ''total'' (init_writes tid @ ws @ ?e) = map str_int (0 # replicate k n)"
    using n(2) e(1) by (simp add: init_writes_def)
  have 2: "writes_of tid ''progress'' (init_writes tid @ ws @ ?e) = map str_int (0 # ns)"
    using ns(1) e(2) by (simp add: init_writes_def)
  have 3: "sorted (0 # ns)" "\<forall>m \<in> set (0 # ns). 0 \<le> m" using ns(2,3) by simp_all
  from r 1 2 3 n(1) show ?thesis by blast
qed

lemma writes_of_take_length:
  "j1 \<le> j2 \<Longrightarrow> length (writes_of tid key (take j1 ws)) \<le> length (writes_of tid key (take j2 ws))"
proof -
  assume "j1 \<le> j2"
  then have "take j2 ws = take j1 ws @ drop j1 (take j2 ws)"
    by (metis append_take_drop_id min.absorb1 take_take)
  then have "writes_of tid key (take j2 ws) =
             writes_of tid key (take j1 ws) @ writes_of tid key (drop j1 (take j2 ws))"
    by (metis writes_of_append)
  then show ?thesis by simp
qed

lemma read_prefix:
  assumes fresh: "redis_get r0 (task_key tid key) = None"
      and ws: "writes_of tid key ws = map str_int ns"
      and nonneg: "\<forall>n \<in> set ns. 0 \<le> n"
  shows "length (writes_of tid key (take j ws)) \<le> length ns \<and>
         int_value (r0 @ take j ws) tid key =
           (if length (writes_of tid key (take j ws)) = 0 then 0
            else ns ! (length (writes_of tid key (take j ws)) - 1))"
proof -
  let ?a = "writes_of tid key (take j ws)"
  let ?m = "length ?a"
  have "writes_of tid key ws = ?a @ writes_of tid key (drop j ws)"
    by (metis append_take_drop_id writes_of_append)
  then have split: "map str_int ns = ?a @ writes_of tid key (drop j ws)"
    using ws by simp
  then have le: "?m \<le> length ns"
    by (metis length_append length_map le_add1)
  have "take ?m (map str_int ns) = ?a"
    using split by simp
  then have a: "?a = map str_int (take ?m ns)"
    by (simp add: take_map)
  show ?thesis
  proof (cases "?m = 0")
    case True
    then have "redis_get (r0 @ take j ws) (task_key tid key) = None"
      using fresh by (simp add: redis_get_writes)
    then show ?thesis using True le by (simp add: int_value_absent)
  next
    case False
    then have ne: "take ?m ns \<noteq> []" using le by auto
    have "last ?a = str_int (last (take ?m ns))"
      using a ne by (metis last_map)
    moreover have "last (take ?m ns) = ns ! (?m - 1)"
      using False le ne by (simp add: last_conv_nth min_def)
    ultimately have "redis_get (r0 @ take j ws) (task_key tid key) = Some (str_int (ns ! (?m - 1)))"
      using False by (simp add: redis_get_writes)
    moreover have "0 \<le> ns ! (?m - 1)"
      using nonneg False le by (simp add: less_le_trans[OF diff_less])
    ultimately show ?thesis using False le by (simp add: int_value_str_int)
  qed
qed

lemma read_mono:
  assumes fresh: "redis_get r0 (task_key tid key) = None"
      and ws: "writes_of tid key ws = map str_int ns"
      and sorted: "sorted ns"
      and nonneg: "\<forall>n \<in> set ns. 0 \<le> n"
      and le: "j1 \<le> j2"
  shows "int_value (r0 @ take j1 ws) tid key \<le> int_value (r0 @ take j2 ws) tid key"
    and "0 \<le> int_value (r0 @ take j1 ws) tid key"
    and "int_value (r0 @ take j1 ws) tid key \<in> insert 0 (set ns)"
proof -
  let ?m1 = "length (writes_of tid key (take j1 ws))"
  let ?m2 = "length (writes_of tid key (take j2 ws))"
  note r1 = read_prefix[OF fresh ws nonneg, of j1]
  note r2 = read_prefix[OF fresh ws nonneg, of j2]
  have m: "?m1 \<le> ?m2" using le by (rule writes_of_take_length)
  show 3: "int_value (r0 @ take j1 ws) tid key \<in> insert 0 (set ns)"
  proof (cases "?m1 = 0")
    case True
    then show ?thesis using r1 by simp
  next
    case False
    then have "?m1 - 1 < length ns" using r1 by arith
    then show ?thesis using r1 False by (simp add: nth_mem)
  qed
  then show 2: "0 \<le> int_value (r0 @ take j1 ws) tid key"
    using nonneg by auto
  show "int_value (r0 @ take j1 ws) tid key \<le> int_value (r0 @ take j2 ws) tid key"
  proof (cases "?m1 = 0")
    case True
    have "int_value (r0 @ take j2 ws) tid key \<in> insert 0 (set ns)"
    proof (cases "?m2 = 0")
      case True
      then show ?thesis using r2 by simp
    next
      case False
      then have "?m2 - 1 < length ns" using r2 by arith
      then show ?thesis using r2 False by (simp add: nth_mem)
    qed
    then have "0 \<le> int_value (r0 @ take j2 ws) tid key" using nonneg by auto
    then show ?thesis using True r1 by simp
  next
    case False
    then have m2: "?m2 \<noteq> 0" using m by arith
    have i: "?m1 - 1 \<le> ?m2 - 1" using m by arith
    have j: "?m2 - 1 < length ns" using r2 m2 by arith
    have "ns ! (?m1 - 1) \<le> ns ! (?m2 - 1)"
      using sorted i j by (rule sorted_nth_mono)
    moreover have "int_value (r0 @ take j1 ws) tid key = ns ! (?m1 - 1)"
      using r1 False by presburger
    moreover have "int_value (r0 @ take j2 ws) tid key = ns ! (?m2 - 1)"
      using r2 m2 by presburger
    ultimately show ?thesis by presburger
  qed
qed

lemma snapshot_append: "redis w' = redis w @ ws \<Longrightarrow> snapshot w w' k = redis w @ take k ws"
  by (simp add: snapshot_def)

lemma sorted_zero_replicate: "0 \<le> n \<Longrightarrow> sorted (0 # replicate k (n::int))"
  by (simp add: sorted_replicate)

lemma job_reads:
  assumes job: "import_products_task tid path env utcnow w = (out, w')"
      and fresh: "\<forall>key. redis_get (redis w) (task_key tid key) = None"
      and le: "j1 \<le> j2"
  shows "int_value (snapshot w w' j1) tid ''progress'' \<le> int_value (snapshot w w' j2) tid ''progress''"
    and "0 \<le> int_value (snapshot w w' j1) tid ''progress''"
    and "0 \<le> int_value (snapshot w w' j1) tid ''total''"
    and "int_value (snapshot w w' j1) tid ''total'' \<noteq> 0 \<Longrightarrow>
         int_value (snapshot w w' j2) tid ''total'' = int_value (snapshot w w' j1) tid ''total''"
proof -
  from job_published[OF job] obtain ws k n ns where
    ws: "redis w' = redis w @ ws" and
    n: "0 \<le> n" "writes_of tid ''total'' ws = map str_int (0 # replicate k n)" and
    ns: "writes_of tid ''progress'' ws = map str_int ns" "sorted ns" "\<forall>m \<in> set ns. 0 \<le> m"
    by blast
  have fp: "redis_get (redis w) (task_key tid ''progress'') = None"
   and ft: "redis_get (redis w) (task_key tid ''total'') = None"
    using fresh by simp_all
  have st: "sorted (0 # replicate k n)" using n(1) by (rule sorted_zero_replicate)
  have nt: "\<forall>m \<in> set (0 # replicate k n). 0 \<le> m" using n(1) by auto
  show "int_value (snapshot w w' j1) tid ''progress'' \<le> int_value (snapshot w w' j2) tid ''progress''"
    using read_mono(1)[OF fp ns le] by (simp add: snapshot_append[OF ws])
  show "0 \<le> int_value (snapshot w w' j1) tid ''progress''"
    using read_mono(2)[OF fp ns le] by (simp add: snapshot_append[OF ws])
  show "0 \<le> int_value (snapshot w w' j1) tid ''total''"
    using read_mono(2)[OF ft n(2) st nt le] by (simp add: snapshot_append[OF ws])
  assume nz: "int_value (snapshot w w' j1) tid ''total'' \<noteq> 0"
  have a: "int_value (snapshot w w' j1) tid ''total'' \<in> insert 0 (set (0 # replicate k n))"
    using read_mono(3)[OF ft n(2) st nt le] by (simp add: snapshot_append[OF ws])
  have b: "int_value (snapshot w w' j2) tid ''total'' \<in> insert 0 (set (0 # replicate k n))"
    using read_mono(3)[OF ft n(2) st nt order_refl, of j2] by (simp add: snapshot_append[OF ws])
  have c: "int_value (snapshot w w' j1) tid ''total'' \<le> int_value (snapshot w w' j2) tid ''total''"
    using read_mono(1)[OF ft n(2) st nt le] by (simp add: snapshot_append[OF ws])
  from a nz have 1: "int_value (snapshot w w' j1) tid ''total'' = n" by (auto split: if_splits)
  with nz c n(1) have "int_value (snapshot w w' j2) tid ''total'' \<noteq> 0" by linarith
  with b have "int_value (snapshot w w' j2) tid ''total'' = n" by (auto split: if_splits)
  with 1 show "int_value (snapshot w w' j2) tid ''total'' = int_value (snapshot w w' j1) tid ''total''"
    by simp
qed


section \<open>Properties of the import job\<close>

lemma start_world_file: "fs (start_world content) upload_path = Some content"
  by (simp add: start_world_def)

lemma start_world_fresh: "redis_get (redis (start_world content)) k = None"
  by (simp add: start_world_def redis_get_def)

lemma job_no_sku:
  assumes f: "fs w path = Some content" and h: "\<not> has_sku_header content"
      and e: "getenv_batch_size env = Inr bs"
  shows "import_products_task tid path env utcnow w =
           (Raised (header_error content),
            w\<lparr>redis := redis w @ init_writes tid @
                         [(task_key tid ''status'', ''parsing''),
                          (task_key tid ''total'', str_int (count_rows content))] @
                         error_writes tid (header_error content),
              fs := (fs w)(path := None)\<rparr>)"
proof -
  let ?w0 = "w\<lparr>redis := redis w @ init_writes tid\<rparr>"
  have f0: "fs ?w0 path = Some content" using f by simp
  from job_ok_env[OF e try_body_no_sku[OF f0 h, of tid utcnow bs]]
  show ?thesis by simp
qed

lemma headerless_job:
  "import_products_task tid upload_path None utcnow (start_world headerless_csv) =
     (Raised missing_sku,
      (start_world headerless_csv)
        \<lparr>redis := redis (start_world headerless_csv) @ init_writes tid @
                    [(task_key tid ''status'', ''parsing''),
                     (task_key tid ''total'', str_int (count_rows headerless_csv))] @
                    error_writes tid missing_sku,
         fs := (fs (start_world headerless_csv))(upload_path := None)\<rparr>)"
  using job_no_sku[OF start_world_file headerless_no_sku default_batch_size, of tid utcnow]
  by (simp add: headerless_error)

lemma bad_batch_size:
  "getenv_batch_size (Some ''many'') =
     Inl (ValueError (''invalid literal for int() with base 10: '' @ [CHR 0x27] @ ''many'' @ [CHR 0x27]))"
  by (simp add: getenv_batch_size_def py_int_def text_eval is_digit_def)

text \<open>
  Missing header on the guarded path. When the file has no header row, or its header row
  has no column named \<open>sku\<close> up to case and surrounding whitespace, and the batch size
  could be read, the job ends with the exception for the missing header: the table is
  unchanged, the only commands sent to the status store are the initial ones, the
  publication of the total and the two of the error handler, so that \<open>progress\<close> is only
  ever set to 0, \<open>status\<close> is the error phase with the message and \<open>error\<close> is the
  message. The exception is the missing-column error unless the reader itself failed on
  the first record.
\<close>

theorem missing_sku_header_aborts:
  assumes "fs w path = Some content" and "\<not> has_sku_header content"
      and "getenv_batch_size env = Inr bs"
  shows "\<exists>w'. import_products_task tid path env utcnow w = (Raised (header_error content), w')
           \<and> db w' = db w
           \<and> redis w' = redis w @ init_writes tid @
                         [(task_key tid ''status'', ''parsing''),
                          (task_key tid ''total'', str_int (count_rows content))] @
                         error_writes tid (header_error content)
           \<and> writes_of tid ''progress'' (drop (length (redis w)) (redis w')) = [str_int 0]
           \<and> redis_get (redis w') (task_key tid ''progress'') = Some (str_int 0)
           \<and> redis_get (redis w') (task_key tid ''status'') = Some (''error: '' @ str_exc (header_error content))
           \<and> redis_get (redis w') (task_key tid ''error'') = Some (str_exc (header_error content))
           \<and> (header_error content = missing_sku \<or> csv_header content = None)"
proof -
  let ?ws = "init_writes tid @
                         [(task_key tid ''status'', ''parsing''),
                          (task_key tid ''total'', str_int (count_rows content))] @
                         error_writes tid (header_error content)"
  let ?w' = "w\<lparr>redis := redis w @ ?ws, fs := (fs w)(path := None)\<rparr>"
  have 1: "import_products_task tid path env utcnow w = (Raised (header_error content), ?w')"
    using job_no_sku[OF assms] .
  have 2: "db ?w' = db w" by simp
  have 3: "redis ?w' = redis w @ ?ws" by simp
  have 4: "writes_of tid ''progress'' (drop (length (redis w)) (redis ?w')) = [str_int 0]"
    by (simp add: init_writes_def error_writes_def)
  have w: "writes_of tid ''progress'' ?ws = [str_int 0]"
          "writes_of tid ''status'' ?ws = [''initializing'', ''parsing'', ''error: '' @ str_exc (header_error content)]"
          "writes_of tid ''error'' ?ws = [str_exc (header_error content)]"
    by (simp_all add: init_writes_def error_writes_def)
  have 5: "redis_get (redis ?w') (task_key tid ''progress'') = Some (str_int 0)"
    unfolding 3 redis_get_writes w by simp
  have 6: "redis_get (redis ?w') (task_key tid ''status'') = Some (''error: '' @ str_exc (header_error content))"
    unfolding 3 redis_get_writes w by simp
  have 7: "redis_get (redis ?w') (task_key tid ''error'') = Some (str_exc (header_error content))"
    unfolding 3 redis_get_writes w by simp
  have 8: "header_error content = missing_sku \<or> csv_header content = None"
    by (auto simp: header_error_def csv_header_def split: list.splits option.splits prod.splits)
  from 1 2 3 4 5 6 7 8 show ?thesis by blast
qed

theorem missing_sku_header_aborts_witness:
  "\<exists>w'. import_products_task ''job-1'' upload_path None fixed_clock (start_world headerless_csv)
            = (Raised (header_error headerless_csv), w')
        \<and> db w' = db (start_world headerless_csv)
        \<and> redis_get (redis w') (task_key ''job-1'' ''progress'') = Some (str_int 0)
        \<and> redis_get (redis w') (task_key ''job-1'' ''status'')
            = Some (''error: '' @ str_exc (header_error headerless_csv))"
  using missing_sku_header_aborts[OF start_world_file headerless_no_sku default_batch_size,
          of "''job-1''" fixed_clock]
  by blast

text \<open>
  Claim C5, the behaviour of the code at the failing input. The file
  \<open>name,price / Widget,5\<close> has no \<open>sku\<close> column. With \<open>IMPORT_BATCH_SIZE\<close> set to
  \<open>many\<close> the job leaves with the \<open>ValueError\<close> of the conversion of the batch size,
  which stands before the guarded block: the status store has received the four initial
  commands only, \<open>status\<close> reads \<open>initializing\<close> and there is no \<open>error\<close> field, so
  the job has not entered the error phase. (The table is unchanged and \<open>progress\<close> is 0,
  as on the guarded path.)
\<close>

theorem headerless_unreadable_batch_size:
  "import_products_task ''job-1'' upload_path (Some ''many'') fixed_clock (start_world headerless_csv)
     = (Raised (ValueError (''invalid literal for int() with base 10: '' @ [CHR 0x27] @ ''many'' @ [CHR 0x27])),
        (start_world headerless_csv)\<lparr>redis := init_writes ''job-1''\<rparr>)
   \<and> \<not> has_sku_header headerless_csv
   \<and> redis_get (init_writes ''job-1'') (task_key ''job-1'' ''status'') = Some ''initializing''
   \<and> redis_get (init_writes ''job-1'') (task_key ''job-1'' ''error'') = None
   \<and> redis_get (init_writes ''job-1'') (task_key ''job-1'' ''progress'') = Some ''0''"
proof -
  have 1: "import_products_task ''job-1'' upload_path (Some ''many'') fixed_clock (start_world headerless_csv)
     = (Raised (ValueError (''invalid literal for int() with base 10: '' @ [CHR 0x27] @ ''many'' @ [CHR 0x27])),
        (start_world headerless_csv)\<lparr>redis := init_writes ''job-1''\<rparr>)"
    by (simp add: job_bad_env[OF bad_batch_size] start_world_def)
  have w: "writes_of ''job-1'' ''status'' (init_writes ''job-1'') = [''initializing'']"
          "writes_of ''job-1'' ''error'' (init_writes ''job-1'') = []"
          "writes_of ''job-1'' ''progress'' (init_writes ''job-1'') = [''0'']"
    by (simp_all add: init_writes_def str_int_def digits_of.simps)
  have g: "redis_get (init_writes ''job-1'') (task_key ''job-1'' ''status'') = Some ''initializing''"
          "redis_get (init_writes ''job-1'') (task_key ''job-1'' ''error'') = None"
          "redis_get (init_writes ''job-1'') (task_key ''job-1'' ''progress'') = Some ''0''"
    using redis_get_writes[of "[]" "init_writes ''job-1''" "''job-1''"]
    by (simp_all add: w redis_get_def)
  from 1 headerless_no_sku g show ?thesis by blast
qed

text \<open>
  Exceptions on the guarded path. When the batch size has been read and the job ends
  with an exception, that is, the exception was raised while parsing or importing, the
  last two commands the job has sent to the status store set \<open>status\<close> to \<open>error: \<close>
  followed by the message of the exception and \<open>error\<close> to the message; a reader of the
  store then finds both.
\<close>

theorem error_status_before_reraise:
  assumes "getenv_batch_size env = Inr bs"
      and "import_products_task tid path env utcnow w = (Raised e, w')"
  shows "(\<exists>r. redis w' = r @ [(task_key tid ''status'', ''error: '' @ str_exc e),
                               (task_key tid ''error'', str_exc e)])
         \<and> redis_get (redis w') (task_key tid ''status'') = Some (''error: '' @ str_exc e)
         \<and> redis_get (redis w') (task_key tid ''error'') = Some (str_exc e)"
proof -
  from job_raised[OF assms] obtain r where
    r: "redis w' = r @ [(task_key tid ''status'', ''error: '' @ str_exc e),
                        (task_key tid ''error'', str_exc e)]"
    by (auto simp: error_writes_def)
  have "redis w' = (r @ [(task_key tid ''status'', ''error: '' @ str_exc e)]) @ [(task_key tid ''error'', str_exc e)]"
    using r by simp
  then have "redis_get (redis w') (task_key tid ''status'') = Some (''error: '' @ str_exc e)"
    and "redis_get (redis w') (task_key tid ''error'') = Some (str_exc e)"
    by (simp_all only: redis_get_snoc task_key_eq) simp_all
  with r show ?thesis by blast
qed

theorem error_status_before_reraise_witness:
  "redis_get (redis (snd (import_products_task ''job-1'' upload_path None fixed_clock
                              (start_world headerless_csv))))
             (task_key ''job-1'' ''status'') = Some (''error: '' @ str_exc missing_sku)
   \<and> redis_get (redis (snd (import_products_task ''job-1'' upload_path None fixed_clock
                              (start_world headerless_csv))))
             (task_key ''job-1'' ''error'') = Some (str_exc missing_sku)"
proof -
  obtain w' where
    h: "import_products_task ''job-1'' upload_path None fixed_clock (start_world headerless_csv)
          = (Raised missing_sku, w')"
    using headerless_job by blast
  from error_status_before_reraise[OF default_batch_size h] show ?thesis
    unfolding h by simp
qed

text \<open>
  Claim C8, the behaviour of the code at the failing input. With \<open>IMPORT_BATCH_SIZE\<close>
  set to \<open>many\<close>, for every file, task and store, the job leaves with the \<open>ValueError\<close>
  of the conversion of the batch size and has sent the four initial commands only: the
  handler that records an exception has not run, \<open>status\<close> reads \<open>initializing\<close> and the
  \<open>error\<close> field is as it was before the job. A poller finds a job that has crashed
  and no error phase.
\<close>

theorem crash_without_error_status:
  "import_products_task tid path (Some ''many'') utcnow w
     = (Raised (ValueError (''invalid literal for int() with base 10: '' @ [CHR 0x27] @ ''many'' @ [CHR 0x27])),
        w\<lparr>redis := redis w @ init_writes tid\<rparr>)
   \<and> redis_get (redis w @ init_writes tid) (task_key tid ''status'') = Some ''initializing''
   \<and> redis_get (redis w @ init_writes tid) (task_key tid ''error'')
       = redis_get (redis w) (task_key tid ''error'')"
proof -
  have 1: "import_products_task tid path (Some ''many'') utcnow w
     = (Raised (ValueError (''invalid literal for int() with base 10: '' @ [CHR 0x27] @ ''many'' @ [CHR 0x27])),
        w\<lparr>redis := redis w @ init_writes tid\<rparr>)"
    by (rule job_bad_env[OF bad_batch_size])
  have w: "writes_of tid ''status'' (init_writes tid) = [''initializing'']"
          "writes_of tid ''error'' (init_writes tid) = []"
    by (simp_all add: init_writes_def)
  have 2: "redis_get (redis w @ init_writes tid) (task_key tid ''status'') = Some ''initializing''"
    unfolding redis_get_writes w by simp
  have 3: "redis_get (redis w @ init_writes tid) (task_key tid ''error'')
             = redis_get (redis w) (task_key tid ''error'')"
    unfolding redis_get_writes w by simp
  from 1 2 3 show ?thesis by blast
qed

text \<open>
  Cleanup on the guarded path. On every exit of the job that is reached once the batch
  size has been read from the environment (normal return, or an exception raised inside
  the guarded block), the source file is absent afterwards and no other file is touched.
  The cleanup never raises when the file is absent, and a second cleanup changes
  nothing.
\<close>

theorem cleanup_on_guarded_exits:
  assumes "getenv_batch_size env = Inr bs"
      and "import_products_task tid path env utcnow w = (out, w')"
  shows "fs w' path = None \<and> (\<forall>p. p \<noteq> path \<longrightarrow> fs w' p = fs w p)
         \<and> cleanup path w' = (None, w')
         \<and> fst (cleanup path w0) = None
         \<and> cleanup path (snd (cleanup path w0)) = (None, snd (cleanup path w0))"
proof -
  have f: "fs w' = (fs w)(path := None)" using job_fs[OF assms] .
  then have 1: "fs w' path = None" and 2: "\<forall>p. p \<noteq> path \<longrightarrow> fs w' p = fs w p" by simp_all
  have 3: "cleanup path w' = (None, w')" using f by (simp add: cleanup_eq)
  have 4: "fst (cleanup path w0) = None" by (simp add: cleanup_eq)
  have 5: "cleanup path (snd (cleanup path w0)) = (None, snd (cleanup path w0))" by (simp add: cleanup_eq)
  from 1 2 3 4 5 show ?thesis by blast
qed
theorem cleanup_on_guarded_exits_witness:
  "fs (snd (import_products_task ''job-1'' upload_path None fixed_clock (start_world scenario_csv)))
      upload_path = None
   \<and> fst (cleanup upload_path (start_world scenario_csv)) = None"
proof -
  obtain out w' where
    h: "import_products_task ''job-1'' upload_path None fixed_clock (start_world scenario_csv) = (out, w')"
    by (cases "import_products_task ''job-1'' upload_path None fixed_clock (start_world scenario_csv)")
  from cleanup_on_guarded_exits[OF default_batch_size h, of "start_world scenario_csv"] show ?thesis
    unfolding h by simp
qed

text \<open>
  Claim C9, the behaviour of the code at the failing input. With \<open>IMPORT_BATCH_SIZE\<close>
  set to \<open>many\<close> the job leaves with the \<open>ValueError\<close> of the conversion of the batch
  size, which stands before the guarded block, so the \<open>finally\<close> clause does not run:
  the uploaded file is still there after the job.
\<close>

theorem cleanup_skipped_on_unreadable_batch_size:
  "fst (import_products_task ''job-1'' upload_path (Some ''many'') fixed_clock (start_world scenario_csv))
     = Raised (ValueError (''invalid literal for int() with base 10: '' @ [CHR 0x27] @ ''many'' @ [CHR 0x27]))
   \<and> fs (snd (import_products_task ''job-1'' upload_path (Some ''many'') fixed_clock
                 (start_world scenario_csv))) upload_path = Some scenario_csv"
  by (simp add: job_bad_env[OF bad_batch_size] start_world_def)

text \<open>
  Claim C2, as amended. The import of the file
  \<open>sku,name,price / A1,Widget,$12.50 / ,NoKey,5 / A1,Widget2,9.99\<close> with the default batch
  size, into an empty table, returns normally; the status store then reads
  \<open>status = complete\<close>, \<open>total = 3\<close>, \<open>invalid = 1\<close> and \<open>progress = 1\<close> (the two
  accepted rows share their key, the batch is deduplicated before it is written, and the
  upsert reports one row), the table holds exactly one row, for \<open>A1\<close>, with the name
  \<open>Widget2\<close> and 999 cents, and the file is gone.
\<close>

theorem scenario_import:
  "\<exists>w'. import_products_task tid upload_path None utcnow (start_world scenario_csv) = (Returned, w')
     \<and> redis_get (redis w') (task_key tid ''status'') = Some ''complete''
     \<and> redis_get (redis w') (task_key tid ''total'') = Some ''3''
     \<and> redis_get (redis w') (task_key tid ''invalid'') = Some ''1''
     \<and> redis_get (redis w') (task_key tid ''progress'') = Some ''1''
     \<and> products (db w') =
           [\<lparr>sku = ''A1'', name = Some ''Widget2'', description = None, price_cents = Some 999,
             active = True, row_id = 1, created_at = utcnow 0 0, updated_at = utcnow 0 0\<rparr>]
     \<and> fs w' upload_path = None"
  unfolding scenario_job by (simp add: redis_get_def)

theorem scenario_progress_counterexample:
  "\<exists>w'. import_products_task ''job-1'' upload_path None fixed_clock (start_world scenario_csv)
            = (Returned, w')
     \<and> redis_get (redis w') (task_key ''job-1'' ''progress'') = Some ''1''
     \<and> redis_get (redis w') (task_key ''job-1'' ''progress'') \<noteq> Some ''2''"
  unfolding scenario_job by (simp add: redis_get_def)

text \<open>
  Claim C1, the behaviour of the code at the failing inputs. A row whose \<open>price_cents\<close>
  column holds \<open>1250\<close> is normalised to a record with \<open>price_cents = 125000\<close>: the value
  is read as an amount and multiplied by 100. A row whose \<open>price_cents\<close> column holds
  \<open>0\<close> and whose \<open>price\<close> column holds \<open>5\<close> gets \<open>price_cents = 500\<close>: a parsed zero
  falls back to the \<open>price\<close> column; with no \<open>price\<close> column the price is absent.
\<close>

theorem price_cents_column_times_100:
  "normalize_row [(''sku'', Some ''A1''), (''price_cents'', Some ''1250'')] =
     Some \<lparr>sku = ''A1'', name = None, description = None, price_cents = Some 125000, active = True\<rparr>
   \<and> normalize_row [(''sku'', Some ''A1''), (''price_cents'', Some ''0''), (''price'', Some ''5'')] =
     Some \<lparr>sku = ''A1'', name = None, description = None, price_cents = Some 500, active = True\<rparr>
   \<and> normalize_row [(''sku'', Some ''A1''), (''price_cents'', Some ''0'')] =
     Some \<lparr>sku = ''A1'', name = None, description = None, price_cents = None, active = True\<rparr>"
  by (simp add: row_eval text_eval price_None price_1250 price_0 price_5)






text \<open>
  Claim C10, as amended. Let a job take the status store, which holds nothing under the
  job's keys at the start, through its commands, and let four reads happen in this order
  after \<open>j1 \<le> j2 \<le> j3 \<le> j4\<close> commands: \<open>progress\<close> and \<open>total\<close> of one status read, then
  \<open>progress\<close> and \<open>total\<close> of a later one. The \<open>total\<close> is set to 0 by the first
  commands and to one and the same count by every later command that sets it. The
  \<open>progress\<close> read never decreases; a \<open>total\<close> that was read as non-zero is read
  unchanged later; and when the first status read yields a percentage, the later one
  yields a percentage that is not smaller, for any monotone rounding \<open>fl\<close> of the float
  operations and any monotone rounding \<open>round2\<close> to two decimals.
\<close>

theorem percent_monotone:
  assumes "import_products_task tid path env utcnow w = (out, w')"
      and "\<forall>key. redis_get (redis w) (task_key tid key) = None"
      and "j1 \<le> j2" and "j2 \<le> j3" and "j3 \<le> j4"
      and "mono fl" and "mono round2"
  shows "(\<exists>k n. 0 \<le> n \<and> writes_of tid ''total'' (drop (length (redis w)) (redis w'))
                             = map str_int (0 # replicate k n))
       \<and> int_value (snapshot w w' j1) tid ''progress'' \<le> int_value (snapshot w w' j3) tid ''progress''
       \<and> (int_value (snapshot w w' j2) tid ''total'' \<noteq> 0 \<longrightarrow>
            int_value (snapshot w w' j4) tid ''total'' = int_value (snapshot w w' j2) tid ''total'')
       \<and> (\<forall>p. percent fl round2 (snapshot w w' j1) (snapshot w w' j2) tid = Some p \<longrightarrow>
              (\<exists>p'. percent fl round2 (snapshot w w' j3) (snapshot w w' j4) tid = Some p' \<and> p \<le> p'))"
proof -
  let ?P1 = "int_value (snapshot w w' j1) tid ''progress''"
  let ?P3 = "int_value (snapshot w w' j3) tid ''progress''"
  let ?T2 = "int_value (snapshot w w' j2) tid ''total''"
  let ?T4 = "int_value (snapshot w w' j4) tid ''total''"
  have 1: "\<exists>k n. 0 \<le> n \<and> writes_of tid ''total'' (drop (length (redis w)) (redis w'))
                             = map str_int (0 # replicate k n)"
    using job_published[OF assms(1)] by auto
  have j13: "j1 \<le> j3" and j24: "j2 \<le> j4" using assms(3,4,5) by simp_all
  have 2: "?P1 \<le> ?P3" using job_reads(1)[OF assms(1,2) j13] .
  have 3: "?T2 \<noteq> 0 \<longrightarrow> ?T4 = ?T2" using job_reads(4)[OF assms(1,2) j24] by blast
  have t0: "0 \<le> ?T2" using job_reads(3)[OF assms(1,2) j24] .
  have 4: "\<exists>p'. percent fl round2 (snapshot w w' j3) (snapshot w w' j4) tid = Some p' \<and> p \<le> p'"
    if p: "percent fl round2 (snapshot w w' j1) (snapshot w w' j2) tid = Some p" for p
  proof -
    from p have nz: "?T2 \<noteq> 0" and pv: "p = round2 (fl (fl (real_of_int ?P1 / real_of_int ?T2) * 100))"
      by (auto simp: percent_def Let_def split: if_splits)
    have eq: "?T4 = ?T2" using 3 nz by blast
    have pos: "0 \<le> real_of_int ?T2" using t0 by simp
    have "real_of_int ?P1 / real_of_int ?T2 \<le> real_of_int ?P3 / real_of_int ?T2"
      using 2 pos by (simp add: divide_right_mono)
    then have "fl (real_of_int ?P1 / real_of_int ?T2) \<le> fl (real_of_int ?P3 / real_of_int ?T2)"
      using assms(6) by (rule monoD[rotated])
    then have "fl (real_of_int ?P1 / real_of_int ?T2) * 100 \<le> fl (real_of_int ?P3 / real_of_int ?T2) * 100"
      by simp
    then have "fl (fl (real_of_int ?P1 / real_of_int ?T2) * 100) \<le> fl (fl (real_of_int ?P3 / real_of_int ?T2) * 100)"
      using assms(6) by (rule monoD[rotated])
    then have "round2 (fl (fl (real_of_int ?P1 / real_of_int ?T2) * 100))
                 \<le> round2 (fl (fl (real_of_int ?P3 / real_of_int ?T2) * 100))"
      using assms(7) by (rule monoD[rotated])
    moreover have "percent fl round2 (snapshot w w' j3) (snapshot w w' j4) tid
                     = Some (round2 (fl (fl (real_of_int ?P3 / real_of_int ?T2) * 100)))"
      using nz eq by (simp add: percent_def Let_def)
    ultimately show ?thesis using pv by simp
  qed
  from 1 2 3 4 show ?thesis by blast
qed

theorem percent_monotone_witness:
  "int_value (snapshot (start_world scenario_csv)
                (snd (import_products_task ''job-1'' upload_path None fixed_clock (start_world scenario_csv))) 2)
             ''job-1'' ''progress''
   \<le> int_value (snapshot (start_world scenario_csv)
                (snd (import_products_task ''job-1'' upload_path None fixed_clock (start_world scenario_csv))) 8)
             ''job-1'' ''progress''"
proof -
  obtain out w' where
    h: "import_products_task ''job-1'' upload_path None fixed_clock (start_world scenario_csv) = (out, w')"
    by (cases "import_products_task ''job-1'' upload_path None fixed_clock (start_world scenario_csv)")
  have fresh: "\<forall>key. redis_get (redis (start_world scenario_csv)) (task_key ''job-1'' key) = None"
    by (simp add: start_world_fresh)
  have m: "mono (\<lambda>x::real. x)" by (simp add: mono_def)
  have a: "(2::nat) \<le> 6" and b: "(6::nat) \<le> 8" and c: "(8::nat) \<le> 10" by simp_all
  from percent_monotone[OF h fresh a b c m m] show ?thesis
    unfolding h by simp
qed

lemma py_int_0_3: "py_int ''0'' = Some 0" "py_int ''3'' = Some 3"
  by (simp_all add: py_int_def text_eval is_digit_def remove_char_def digits_val_def digit_val_def)

theorem total_republished_counterexample:
  "int_value (snapshot (start_world scenario_csv)
                (snd (import_products_task ''job-1'' upload_path None fixed_clock (start_world scenario_csv))) 3)
             ''job-1'' ''total'' = 0
   \<and> int_value (snapshot (start_world scenario_csv)
                (snd (import_products_task ''job-1'' upload_path None fixed_clock (start_world scenario_csv))) 6)
             ''job-1'' ''total'' = 3"
  unfolding scenario_job
  by (simp add: snapshot_def start_world_def int_value_def redis_get_def py_int_0_3 numeral_eq_Suc)

end
